theory Spec2Isabelle
  imports Main
begin

section \<open>JavaScript strings\<close>

text \<open>
  A JavaScript string is a sequence of UTF-16 code units and \<open>length\<close> counts code
  units, so a string is modelled as a list of code-unit values. The literal
  \<open>js ''abc''\<close> is the string of the ASCII characters written.
\<close>

type_synonym jstr = "nat list"

definition js :: "string \<Rightarrow> jstr" where
  "js s = map of_char s"

definition ELLIPSIS :: nat where
  \<comment> \<open>U+2026, the one code unit of the template literal in \<open>ensureSentence\<close>\<close>
  "ELLIPSIS = 8230"

definition EM_DASH :: nat where
  \<comment> \<open>U+2014, used by three of the query templates\<close>
  "EM_DASH = 8212"

definition isSpace :: "nat \<Rightarrow> bool" where
  \<comment> \<open>the class \<open>\s\<close> of a regular expression, which is also what \<open>trim\<close> strips:
      WhiteSpace and LineTerminator of the language specification\<close>
  "isSpace c \<longleftrightarrow>
     c = 9 \<or> c = 10 \<or> c = 11 \<or> c = 12 \<or> c = 13 \<or> c = 32 \<or> c = 160 \<or> c = 5760 \<or>
     (8192 \<le> c \<and> c \<le> 8202) \<or> c = 8232 \<or> c = 8233 \<or> c = 8239 \<or> c = 8287 \<or>
     c = 12288 \<or> c = 65279"

definition trim :: "jstr \<Rightarrow> jstr" where
  "trim s = rev (dropWhile isSpace (rev (dropWhile isSpace s)))"

definition lowerUnit :: "nat \<Rightarrow> nat" where
  \<comment> \<open>\<open>toLowerCase\<close> on one code unit: the letters of ASCII and Latin-1. Letters beyond
      Latin-1 are left as they are; no theorem below depends on which function this is,
      except where it is evaluated on ASCII text.\<close>
  "lowerUnit c =
     (if 65 \<le> c \<and> c \<le> 90 then c + 32
      else if 192 \<le> c \<and> c \<le> 222 \<and> c \<noteq> 215 then c + 32
      else c)"

definition toLowerCase :: "jstr \<Rightarrow> jstr" where
  "toLowerCase s = map lowerUnit s"

definition startsWith :: "jstr \<Rightarrow> jstr \<Rightarrow> bool" where
  \<comment> \<open>\<open>s.startsWith(p)\<close>, written \<open>startsWith p s\<close>\<close>
  "startsWith p s \<longleftrightarrow> take (length p) s = p"

fun indexOf :: "nat \<Rightarrow> jstr \<Rightarrow> nat option" where
  \<comment> \<open>\<open>s.indexOf(c)\<close> for a one-unit string \<open>c\<close>; \<open>None\<close> is the source's \<open>-1\<close>\<close>
  "indexOf c [] = None"
| "indexOf c (x # xs) =
     (if x = c then Some 0 else map_option Suc (indexOf c xs))"

fun splitOn :: "nat \<Rightarrow> jstr \<Rightarrow> jstr list" where
  \<comment> \<open>\<open>s.split(c)\<close> for a one-unit separator: always at least one field\<close>
  "splitOn c [] = [[]]"
| "splitOn c (x # xs) =
     (if x = c then [] # splitOn c xs
      else (case splitOn c xs of [] \<Rightarrow> [[x]] | f # fs \<Rightarrow> (x # f) # fs))"

fun splitLines :: "jstr \<Rightarrow> jstr list" where
  \<comment> \<open>\<open>s.split(/\r?\n/)\<close>: a cut at CR LF or at LF\<close>
  "splitLines [] = [[]]"
| "splitLines [x] = (if x = 10 then [[], []] else [[x]])"
| "splitLines (x # y # xs) =
     (if x = 13 \<and> y = 10 then [] # splitLines xs
      else if x = 10 then [] # splitLines (y # xs)
      else (case splitLines (y # xs) of [] \<Rightarrow> [[x]] | f # fs \<Rightarrow> (x # f) # fs))"

fun join :: "jstr \<Rightarrow> jstr list \<Rightarrow> jstr" where
  \<comment> \<open>\<open>parts.join(sep)\<close>, written \<open>join sep parts\<close>\<close>
  "join sep [] = []"
| "join sep [p] = p"
| "join sep (p # q # ps) = p @ sep @ join sep (q # ps)"

fun cutAt :: "(jstr \<Rightarrow> bool) \<Rightarrow> nat \<Rightarrow> jstr \<Rightarrow> (jstr \<times> jstr) option" where
  \<comment> \<open>the leftmost position where \<open>P\<close> holds of the rest of the string: the text before
      it, and the text after the \<open>n\<close> units matched there\<close>
  "cutAt P n [] = (if P [] then Some ([], []) else None)"
| "cutAt P n (x # xs) =
     (if P (x # xs) then Some ([], drop n (x # xs))
      else map_option (\<lambda>(a, b). (x # a, b)) (cutAt P n xs))"

definition FENCE :: jstr where
  "FENCE = js ''```''"

definition fencedBlock :: "jstr \<Rightarrow> jstr \<Rightarrow> jstr option" where
  \<comment> \<open>capture group 1 of \<open>/```tag([\s\S]*?)```/i\<close>: the opening fence with its tag,
      matched without regard to ASCII case, then the shortest text up to a closing
      fence. When the leftmost opening has no closing fence after it, no later opening
      has one either, so the leftmost opening decides.\<close>
  "fencedBlock tag s =
     (case cutAt (\<lambda>r. toLowerCase (take (length (FENCE @ tag)) r) = FENCE @ tag)
                 (length (FENCE @ tag)) s of
        None \<Rightarrow> None
      | Some (_, rest) \<Rightarrow>
          (case cutAt (startsWith FENCE) (length FENCE) rest of
             None \<Rightarrow> None
           | Some (inner, _) \<Rightarrow> Some inner))"

section \<open>Errors\<close>

datatype error =
    Platform jstr              \<comment> \<open>thrown by the platform, with its message: \<open>fetch\<close> rejected
                                   or was aborted, a body could not be read or parsed\<close>
  | TypeError                  \<comment> \<open>a value used as what it is not\<close>
  | Timeout                    \<comment> \<open>the deadline of \<open>withTimeout\<close> passed\<close>
  | GeoStatus nat              \<comment> \<open>"Zippopotam lookup failed with status ..."\<close>
  | MissingApiKey              \<comment> \<open>"GROK_API_KEY is not configured."\<close>
  | MissingApiUrl              \<comment> \<open>"GROK_API_URL (or GROK_API_BASE_URL) is not configured."\<close>
  | InvalidApiUrl              \<comment> \<open>"GROK_API_URL is not a valid URL."\<close>
  | GrokStatus nat jstr        \<comment> \<open>"Grok responded with status ...", with the body's preview\<close>
  | InvalidContent             \<comment> \<open>"Grok returned invalid content payload."\<close>
  | EmptySynthesis             \<comment> \<open>"Grok returned an empty synthesis payload."\<close>

section \<open>Synthesis Parser\<close>

record GrokAnchor =
  category :: jstr
  name :: jstr
  summary :: jstr

text \<open>
  \<open>knowledge\<close> is a plain object used as a dictionary. Its own keys are kept as an
  association list in the order of their creation.
\<close>

type_synonym KnowledgeBrief = "(jstr \<times> jstr list) list"

record GrokSynthesis =
  knowledge :: KnowledgeBrief
  anchors :: "GrokAnchor list"

definition inheritedKeys :: "jstr list" where
  \<comment> \<open>the properties which \<open>{}\<close> inherits from \<open>Object.prototype\<close> and whose names are
      their own lower-casing: reading them gives a truthy value that is no array\<close>
  "inheritedKeys = [js ''constructor'', js ''__proto__'']"

definition pushSentence :: "KnowledgeBrief \<Rightarrow> jstr \<Rightarrow> jstr \<Rightarrow> error + KnowledgeBrief" where
  \<comment> \<open>\<open>if (!knowledge[bucket]) knowledge[bucket] = []; knowledge[bucket].push(sentence)\<close>\<close>
  "pushSentence k bucket sentence =
     (case map_of k bucket of
        Some _ \<Rightarrow>
          Inr (map (\<lambda>(b, ss). if b = bucket then (b, ss @ [sentence]) else (b, ss)) k)
      | None \<Rightarrow>
          if bucket \<in> set inheritedKeys then Inl TypeError
          else Inr (k @ [(bucket, [sentence])]))"

definition parseLine :: "GrokSynthesis \<Rightarrow> jstr \<Rightarrow> error + GrokSynthesis" where
  \<comment> \<open>the body of the loop over the lines\<close>
  "parseLine acc line =
     (if startsWith (js ''ANCHOR|'') line then
        (let parts = map trim (splitOn 124 line) in
         if length parts \<ge> 4 then
           Inr (acc\<lparr>anchors := anchors acc @
                  [\<lparr>category = parts ! 1, name = parts ! 2,
                    summary = join [32] (drop 3 parts)\<rparr>]\<rparr>)
         else Inr acc)
      else
        (case indexOf 58 line of
           None \<Rightarrow> Inr acc
         | Some separatorIndex \<Rightarrow>
             (let bucket = toLowerCase (trim (take separatorIndex line));
                  sentence = trim (drop (separatorIndex + 1) line) in
              if bucket = [] \<or> sentence = [] then Inr acc
              else (case pushSentence (knowledge acc) bucket sentence of
                      Inl e \<Rightarrow> Inl e
                    | Inr k \<Rightarrow> Inr (acc\<lparr>knowledge := k\<rparr>)))))"

fun parseLines :: "GrokSynthesis \<Rightarrow> jstr list \<Rightarrow> error + GrokSynthesis" where
  "parseLines acc [] = Inr acc"
| "parseLines acc (l # ls) =
     (case parseLine acc l of Inl e \<Rightarrow> Inl e | Inr acc' \<Rightarrow> parseLines acc' ls)"

definition extractContent :: "jstr \<Rightarrow> jstr" where
  \<comment> \<open>the fenced block tagged json, else any fenced block, else the text; trimmed\<close>
  "extractContent content =
     trim (case fencedBlock (js ''json'') content of
             Some inner \<Rightarrow> inner
           | None \<Rightarrow> (case fencedBlock [] content of
                        Some inner \<Rightarrow> inner
                      | None \<Rightarrow> content))"

definition contentLines :: "jstr \<Rightarrow> jstr list" where
  \<comment> \<open>\<open>content.split(/\r?\n/).map(trim).filter(Boolean)\<close>\<close>
  "contentLines content = filter (\<lambda>l. l \<noteq> []) (map trim (splitLines content))"

definition parseSynthesis :: "jstr \<Rightarrow> error + GrokSynthesis" where
  \<comment> \<open>\<open>callGrok\<close> from the model's reply text to its result\<close>
  "parseSynthesis reply =
     (case parseLines \<lparr>knowledge = [], anchors = []\<rparr> (contentLines (extractContent reply)) of
        Inl e \<Rightarrow> Inl e
      | Inr syn \<Rightarrow>
          if knowledge syn = [] \<and> anchors syn = [] then Inl EmptySynthesis
          else Inr syn)"

definition sentencesOf :: "KnowledgeBrief \<Rightarrow> jstr \<Rightarrow> jstr list" where
  \<comment> \<open>the sentences under a key of the knowledge mapping, none when the key is absent\<close>
  "sentencesOf k b = (case map_of k b of None \<Rightarrow> [] | Some ss \<Rightarrow> ss)"

definition skipped :: "jstr \<Rightarrow> bool" where
  \<comment> \<open>a malformed line: an anchor line with fewer than four fields, or a line with no
      colon\<close>
  "skipped line \<longleftrightarrow>
     (if startsWith (js ''ANCHOR|'') line then length (splitOn 124 line) < 4
      else 58 \<notin> set line)"

section \<open>Bounded Concurrency Runner\<close>

text \<open>
  \<open>mapWithConcurrency\<close> starts \<open>min limit (length items)\<close> workers. Each worker is a
  loop that takes the next index from the shared cursor, calls the mapper on that item
  and waits for its promise. JavaScript runs the code between two waits without
  interruption, so a state of the pool is the cursor, the result array and, for each
  worker, where it stands: waiting for the mapper's promise of some index, returned, or
  ended by a rejection. The order in which the waiting promises settle is not fixed by
  the program: \<open>step\<close> allows any waiting worker to go next.

  The mapper is a parameter. Its promise for an item is fulfilled with a value
  (\<open>Inr\<close>) or rejected (\<open>Inl\<close>).
\<close>

datatype 'e worker = Awaiting nat | Returned | Threw 'e

record ('e, 'r) pool =
  cursor :: nat
  results :: "'r option list"     \<comment> \<open>\<open>new Array(items.length)\<close>: a hole is \<open>None\<close>\<close>
  workers :: "'e worker list"
  rejection :: "'e option"        \<comment> \<open>the first rejection, which settles \<open>Promise.all\<close>\<close>

definition iterate :: "nat \<Rightarrow> ('e, 'r) pool \<Rightarrow> 'e worker \<times> ('e, 'r) pool" where
  \<comment> \<open>a worker from the head of its loop to its next wait, \<open>n\<close> being \<open>items.length\<close>:
      \<open>index = cursor; cursor += 1; if (index >= n) break; await mapper(...)\<close>\<close>
  "iterate n p =
     (let index = cursor p; p' = p\<lparr>cursor := cursor p + 1\<rparr>
      in (if index \<ge> n then Returned else Awaiting index, p'))"

fun spawn :: "nat \<Rightarrow> nat \<Rightarrow> ('e, 'r) pool \<Rightarrow> ('e, 'r) pool" where
  \<comment> \<open>\<open>Array.from({ length: workerCount }, () => worker())\<close>: each call runs the new
      worker up to its first wait\<close>
  "spawn n 0 p = p"
| "spawn n (Suc k) p =
     (let (w, p') = iterate n p in spawn n k (p'\<lparr>workers := workers p' @ [w]\<rparr>))"

definition start :: "nat \<Rightarrow> nat \<Rightarrow> ('e, 'r) pool" where
  \<comment> \<open>the pool when \<open>Promise.all\<close> is reached, for \<open>n\<close> items and the given limit\<close>
  "start n limit =
     spawn n (min limit n)
       \<lparr>cursor = 0, results = replicate n None, workers = [], rejection = None\<rparr>"

definition settle ::
  "'a list \<Rightarrow> ('a \<Rightarrow> nat \<Rightarrow> 'e + 'r) \<Rightarrow> nat \<Rightarrow> ('e, 'r) pool \<Rightarrow> ('e, 'r) pool" where
  \<comment> \<open>the promise that worker \<open>w\<close> waits for settles: a value is stored and the loop goes
      on; a rejection ends the worker\<close>
  "settle items mapper w p =
     (case workers p ! w of
        Awaiting index \<Rightarrow>
          (case mapper (items ! index) index of
             Inl e \<Rightarrow>
               p\<lparr>workers := (workers p)[w := Threw e],
                 rejection := (case rejection p of None \<Rightarrow> Some e | Some e' \<Rightarrow> Some e')\<rparr>
           | Inr v \<Rightarrow>
               (let p1 = p\<lparr>results := (results p)[index := Some v]\<rparr>;
                    (wk, p2) = iterate (length items) p1
                in p2\<lparr>workers := (workers p2)[w := wk]\<rparr>))
      | Returned \<Rightarrow> p
      | Threw e \<Rightarrow> p)"

definition isAwaiting :: "'e worker \<Rightarrow> bool" where
  "isAwaiting w = (case w of Awaiting i \<Rightarrow> True | Returned \<Rightarrow> False | Threw e \<Rightarrow> False)"

definition outstanding :: "('e, 'r) pool \<Rightarrow> nat" where
  \<comment> \<open>the mapper invocations whose promise has not settled\<close>
  "outstanding p = length (filter isAwaiting (workers p))"

inductive step ::
  "'a list \<Rightarrow> ('a \<Rightarrow> nat \<Rightarrow> 'e + 'r) \<Rightarrow> ('e, 'r) pool \<Rightarrow> ('e, 'r) pool \<Rightarrow> bool"
  for items mapper where
  settles: "w < length (workers p) \<Longrightarrow> isAwaiting (workers p ! w) \<Longrightarrow>
            step items mapper p (settle items mapper w p)"

inductive reachable ::
  "'a list \<Rightarrow> nat \<Rightarrow> ('a \<Rightarrow> nat \<Rightarrow> 'e + 'r) \<Rightarrow> ('e, 'r) pool \<Rightarrow> bool"
  for items limit mapper where
  initial: "reachable items limit mapper (start (length items) limit)"
| later: "reachable items limit mapper p \<Longrightarrow> step items mapper p p' \<Longrightarrow>
          reachable items limit mapper p'"

definition settled :: "('e, 'r) pool \<Rightarrow> bool" where
  \<comment> \<open>no worker waits any more\<close>
  "settled p \<longleftrightarrow> outstanding p = 0"

definition outcome :: "('e, 'r) pool \<Rightarrow> 'e + 'r option list" where
  \<comment> \<open>what \<open>await Promise.all(workers); return results\<close> gives\<close>
  "outcome p = (case rejection p of Some e \<Rightarrow> Inl e | None \<Rightarrow> Inr (results p))"

fun firstAwaiting :: "'e worker list \<Rightarrow> nat option" where
  "firstAwaiting [] = None"
| "firstAwaiting (w # ws) =
     (if isAwaiting w then Some 0 else map_option Suc (firstAwaiting ws))"

definition settleNext ::
  "'a list \<Rightarrow> ('a \<Rightarrow> nat \<Rightarrow> 'e + 'r) \<Rightarrow> ('e, 'r) pool \<Rightarrow> ('e, 'r) pool" where
  "settleNext items mapper p =
     (case firstAwaiting (workers p) of None \<Rightarrow> p | Some w \<Rightarrow> settle items mapper w p)"

definition mapWithConcurrency ::
  "'a list \<Rightarrow> nat \<Rightarrow> ('a \<Rightarrow> nat \<Rightarrow> 'e + 'r) \<Rightarrow> 'e + 'r option list" where
  \<comment> \<open>one run of the pool, the one where the lowest waiting worker always settles
      first. Every promise settles after at most \<open>length items\<close> steps
      (\<open>run_settles\<close>), and every other order gives the same results
      (\<open>mapWithConcurrency_ordered\<close>).\<close>
  "mapWithConcurrency items limit mapper =
     (if items = [] then Inr []
      else outcome ((settleNext items mapper ^^ length items) (start (length items) limit)))"

fun filled :: "'r option list \<Rightarrow> error + 'r list" where
  \<comment> \<open>reading the elements of a result array: destructuring a hole throws\<close>
  "filled [] = Inr []"
| "filled (None # rs) = Inl TypeError"
| "filled (Some r # rs) = (case filled rs of Inl e \<Rightarrow> Inl e | Inr vs \<Rightarrow> Inr (r # vs))"

section \<open>Upstream replies\<close>

text \<open>
  What \<open>fetchWithTimeout\<close> gives for a request: the promise is rejected (network
  failure, or the abort after eight seconds), or there is a response with a status.
  The body of a response is read afterwards, and reading or parsing it can fail.
\<close>

datatype 'b fetched = Rejected jstr | Response nat 'b

definition ok :: "nat \<Rightarrow> bool" where
  \<comment> \<open>\<open>response.ok\<close>\<close>
  "ok status \<longleftrightarrow> 200 \<le> status \<and> status \<le> 299"

definition truthy :: "jstr option \<Rightarrow> bool" where
  \<comment> \<open>a string field that is present and not empty\<close>
  "truthy v = (case v of None \<Rightarrow> False | Some s \<Rightarrow> s \<noteq> [])"

section \<open>Snippet Source\<close>

function collapse :: "jstr \<Rightarrow> jstr" where
  \<comment> \<open>\<open>text.replace(/\s+/g, " ")\<close>\<close>
  "collapse [] = []"
| "collapse (c # cs) =
     (if isSpace c then 32 # collapse (dropWhile isSpace cs) else c # collapse cs)"
  by pat_completeness auto
termination
  by (relation "measure length") (auto simp: le_imp_less_Suc length_dropWhile_le)

definition normalizeBlurb :: "jstr \<Rightarrow> jstr" where
  "normalizeBlurb text = trim (collapse text)"

definition terminal :: "nat \<Rightarrow> bool" where
  \<comment> \<open>the class \<open>[.!?]\<close>\<close>
  "terminal c \<longleftrightarrow> c = 46 \<or> c = 33 \<or> c = 63"

definition ensureSentence :: "jstr \<Rightarrow> jstr" where
  "ensureSentence text =
     (let trimmed = normalizeBlurb text in
      if trimmed = [] then []
      else
        (let clipped = (if length trimmed > 220 then trim (take 217 trimmed) @ [ELLIPSIS]
                        else trimmed)
         in if terminal (last clipped) then clipped else clipped @ [46]))"

datatype RelatedTopic =
    NoTopic                      \<comment> \<open>a null entry, or one with neither field\<close>
  | TextTopic jstr               \<comment> \<open>\<open>{ Text }\<close>\<close>
  | GroupTopic "jstr option list" \<comment> \<open>\<open>{ Topics }\<close>, each with its \<open>Text\<close> if any\<close>

record DuckDuckGoResponse =
  Heading :: "jstr option"
  AbstractText :: "jstr option"
  Abstract :: "jstr option"
  Answer :: "jstr option"
  Infobox :: "(jstr option \<times> jstr option) list option"
     \<comment> \<open>\<open>Infobox.content\<close>: the pairs of \<open>label\<close> and \<open>value\<close>\<close>
  RelatedTopics :: "RelatedTopic list option"

datatype ddg_body =
    BodyFailed jstr              \<comment> \<open>\<open>response.text()\<close> rejects\<close>
  | BodyEmpty                    \<comment> \<open>the text is empty\<close>
  | BodyNotJson                  \<comment> \<open>\<open>JSON.parse\<close> throws\<close>
  | BodyNull                     \<comment> \<open>the text \<open>null\<close>\<close>
  | BodyJson DuckDuckGoResponse

fun nestedBlurbs :: "jstr option list \<Rightarrow> jstr list" where
  "nestedBlurbs [] = []"
| "nestedBlurbs (t # ts) =
     (if truthy t \<and> normalizeBlurb (the t) \<noteq> [] then normalizeBlurb (the t) # nestedBlurbs ts
      else nestedBlurbs ts)"

fun relatedBlurbs :: "RelatedTopic list \<Rightarrow> jstr list" where
  "relatedBlurbs [] = []"
| "relatedBlurbs (NoTopic # items) = relatedBlurbs items"
| "relatedBlurbs (TextTopic t # items) =
     (if normalizeBlurb t \<noteq> [] then normalizeBlurb t # relatedBlurbs items
      else relatedBlurbs items)"
| "relatedBlurbs (GroupTopic ts # items) = nestedBlurbs ts @ relatedBlurbs items"

definition extractRelatedTopics :: "DuckDuckGoResponse \<Rightarrow> jstr list" where
  "extractRelatedTopics raw =
     (case RelatedTopics raw of None \<Rightarrow> [] | Some related \<Rightarrow> relatedBlurbs related)"

fun infoboxCandidates :: "(jstr option \<times> jstr option) list \<Rightarrow> jstr list" where
  "infoboxCandidates [] = []"
| "infoboxCandidates ((label, val) # items) =
     (if truthy val then
        ((if truthy label then the label @ js '': '' else []) @ the val) # infoboxCandidates items
      else infoboxCandidates items)"

definition candidatesOf :: "DuckDuckGoResponse \<Rightarrow> jstr list" where
  \<comment> \<open>the candidate list, in the order the fields are read\<close>
  "candidatesOf data =
     (if truthy (Heading data) then [the (Heading data)] else []) @
     (if truthy (AbstractText data) then [the (AbstractText data)] else []) @
     (if truthy (Abstract data) then [the (Abstract data)] else []) @
     (if truthy (Answer data) then [the (Answer data)] else []) @
     (case Infobox data of None \<Rightarrow> [] | Some content \<Rightarrow> infoboxCandidates content) @
     extractRelatedTopics data"

fun collectSnippets :: "nat \<Rightarrow> jstr list \<Rightarrow> jstr list \<Rightarrow> jstr list \<Rightarrow> jstr list" where
  \<comment> \<open>the loop over the candidates, with the set \<open>seen\<close> and the list \<open>snippets\<close>\<close>
  "collectSnippets limit seen snippets [] = snippets"
| "collectSnippets limit seen snippets (candidate # rest) =
     (let sentence = ensureSentence candidate in
      if sentence = [] then collectSnippets limit seen snippets rest
      else if toLowerCase sentence \<in> set seen then collectSnippets limit seen snippets rest
      else if length (snippets @ [sentence]) \<ge> limit then snippets @ [sentence]
      else collectSnippets limit (toLowerCase sentence # seen) (snippets @ [sentence]) rest)"

definition snippetsOrThrow :: "ddg_body fetched \<Rightarrow> nat \<Rightarrow> error + jstr list" where
  \<comment> \<open>the body of the \<open>try\<close> block of \<open>queryDuckDuckGoSnippets\<close>\<close>
  "snippetsOrThrow reply limit =
     (case reply of
        Rejected m \<Rightarrow> Inl (Platform m)
      | Response status body \<Rightarrow>
          if \<not> ok status then Inr []
          else (case body of
                  BodyFailed m \<Rightarrow> Inl (Platform m)
                | BodyEmpty \<Rightarrow> Inr []
                | BodyNotJson \<Rightarrow> Inr []
                | BodyNull \<Rightarrow> Inl TypeError
                | BodyJson data \<Rightarrow> Inr (collectSnippets limit [] [] (candidatesOf data))))"

definition queryDuckDuckGoSnippets :: "(jstr \<Rightarrow> ddg_body fetched) \<Rightarrow> jstr \<Rightarrow> nat \<Rightarrow> jstr list" where
  \<comment> \<open>\<open>ddg\<close> is the search endpoint: the reply to a query. The \<open>catch\<close> turns every
      error into the empty list.\<close>
  "queryDuckDuckGoSnippets ddg query limit =
     (case snippetsOrThrow (ddg query) limit of Inl e \<Rightarrow> [] | Inr snippets \<Rightarrow> snippets)"

section \<open>Strategic Context Aggregator\<close>

datatype ContextBucketKey =
    state_identity | state_trends | seasonal_rhythms | community_traditions
  | iconic_destinations | outdoor_showstoppers | neighborhood_archetypes | home_projects
  | economic_momentum | population_growth | desirability_factors | sports_heat
  | food_and_drink | civic_culture | housing_signals | life_stage_notes
  | positive_news | emotional_connectors

record StrategicQueryConfig =
  key :: ContextBucketKey
  templates :: "jstr list"
  limit :: "nat option"

definition STRATEGIC_QUERIES :: "StrategicQueryConfig list" where
  "STRATEGIC_QUERIES =
   [\<lparr>key = state_identity,
      templates =
       [js ''How do residents describe the character of {state}? Mention pride points or what makes living there special.'',
        js ''Signature cultural traits or statewide identity markers people associate with {state}.'',
        js ''What do long-time residents love telling newcomers about {state}?''],
      limit = Some 2\<rparr>,
   \<lparr>key = state_trends,
      templates =
       [js ''What lifestyle or outdoor trends are residents across {state} excited about lately? Share vivid activities locals mention.'',
        js ''Popular weekend adventures {state} homeowners rave about lately.'',
        js ''Seasonal highlights or statewide events people across {state} keep talking about.''],
      limit = Some 3\<rparr>,
   \<lparr>key = seasonal_rhythms,
      templates =
       [js ''What seasonal rhythms define life in {state}? Mention weather extremes and how locals adapt.'',
        js ''Traditions or rituals people in {state} follow as seasons shift (snowbirds, monsoon storms, summer nights).'',
        js ''How do homeowners in {state} prep their homes for upcoming seasons?''],
      limit = Some 3\<rparr>,
   \<lparr>key = community_traditions,
      templates =
       [js ''Signature annual events, markets, or traditions in {city}, {state} that locals celebrate.'',
        js ''Upcoming community events or festivals residents in {city}, {state} are buzzing about.'',
        js ''Family-friendly or foodie-focused traditions unique to {city}, {state}.''],
      limit = Some 3\<rparr>,
   \<lparr>key = iconic_destinations,
      templates =
       [js ''Iconic attractions or major destinations in or near {city}, {state} that locals brag about (theme parks, stadiums, landmarks).'',
        js ''Bucket-list spots around {city}, {state} that friends and family visit when they come to town.'',
        js ''Within an hour of {city}, {state}, what well-known attractions draw the biggest crowds?''],
      limit = Some 3\<rparr>,
   \<lparr>key = outdoor_showstoppers,
      templates =
       [js ''Scenic drives, lakes, mountains, or outdoor escapes near {city}, {state} that locals love for day trips.'',
        js ''Where do residents of {city}, {state} head when they want nature or a change of scenery without flying?'',
        js ''Popular golf courses, resorts, or hiking loops people in {city}, {state} keep talking about this season.''],
      limit = Some 3\<rparr>,
   \<lparr>key = neighborhood_archetypes,
      templates =
       [js ''Iconic neighborhoods or master-planned communities around {city}, {state} and what they are known for.'',
        js ''Up-and-coming corridors or historic districts near {city}, {state} that locals love to brag about.'',
        js ''Describe the vibe locals associate with neighborhoods near ZIP {zip}.''],
      limit = Some 3\<rparr>,
   \<lparr>key = home_projects,
      templates =
       [js ''Homeowners in ZIP {zip} near {city}, {state}: what improvement or renovation projects are trending or commonly discussed?'',
        js ''What kinds of home upgrades or backyard projects are popular in ZIP {zip} these days, and why?'',
        js ''Any incentives or local contractors people mention when tackling projects around {city}, {state}?''],
      limit = Some 2\<rparr>,
   \<lparr>key = economic_momentum,
      templates =
       [js ''Major employers, new campuses, or infrastructure projects shaping {city}, {state} right now.'',
        js ''What big developments (factories, tech hubs, hospitals) are in the pipeline around {city}, {state}?'',
        js ''Any headline-making investments or revitalization efforts near {city}, {state} that residents keep mentioning?''],
      limit = Some 3\<rparr>,
   \<lparr>key = population_growth,
      templates =
       [js ''Summarize population or growth trends for {city}, {state} or ZIP {zip}. Why are people moving there?'',
        js ''Recent migration or growth stats that show how {city}, {state} is changing.'',
        js ''How has the population around {city}, {state} shifted over the past few years?''],
      limit = Some 2\<rparr>,
   \<lparr>key = desirability_factors,
      templates =
       [js ''Top reasons people choose to move to {city}, {state}'' @ [EM_DASH] @ js ''schools, lifestyle, cost of living, climate, etc.'',
        js ''What makes {city}, {state} desirable compared with surrounding areas?'',
        js ''Awards or rankings that highlight {city}, {state} as a great place to live.''],
      limit = Some 3\<rparr>,
   \<lparr>key = sports_heat,
      templates =
       [js ''Sports teams, youth leagues, or game-day traditions people in {city}, {state} rally around lately.'',
        js ''Which local teams, rec leagues, or outdoor sports keep {city}, {state} residents fired up?'',
        js ''Any big wins, rivalry games, or upcoming tournaments locals are buzzing about in {city}, {state}.''],
      limit = Some 3\<rparr>,
   \<lparr>key = food_and_drink,
      templates =
       [js ''Beloved local restaurants, cafes, or breweries in {city}, {state} that residents rave about.'',
        js ''Signature dishes or food experiences people insist visitors try in {city}, {state}.'',
        js ''Popular farmers markets, craft beverage spots, or foodie events in {city}, {state}.''],
      limit = Some 3\<rparr>,
   \<lparr>key = civic_culture,
      templates =
       [js ''Museums, performing arts centers, or cultural institutions that define {city}, {state}.'',
        js ''Recent civic projects or community centers locals are excited about in {city}, {state}.'',
        js ''Where do people gather for arts, libraries, or community programs near {city}, {state}?''],
      limit = Some 2\<rparr>,
   \<lparr>key = housing_signals,
      templates =
       [js ''Housing market signals around ZIP {zip}: home ages, new builds, or design styles locals mention.'',
        js ''Any chatter about inventory, price trends, or neighborhood transitions in {city}, {state}.'',
        js ''How are neighbors around {city}, {state} leveraging equity or refreshing older homes?''],
      limit = Some 2\<rparr>,
   \<lparr>key = life_stage_notes,
      templates =
       [js ''What life stages dominate neighborhoods near ZIP {zip}? Mention families, retirees, or young professionals without using sensitive statistics.'',
        js ''Any signs of multigenerational living, downsizing, or move-up buyers in {city}, {state}.'',
        js ''How do locals describe the mix of people settling into {city}, {state} neighborhoods lately?''],
      limit = Some 2\<rparr>,
   \<lparr>key = positive_news,
      templates =
       [js ''Recent good news stories around {city}, {state}'' @ [EM_DASH] @ js ''new parks, business expansions, or community wins.'',
        js ''Infrastructure improvements or openings locals near {city}, {state} are excited about.'',
        js ''Feel-good headlines or local achievements people in {city}, {state} are proud of.''],
      limit = Some 2\<rparr>,
   \<lparr>key = emotional_connectors,
      templates =
       [js ''Where do locals in {city}, {state} show pride or nostalgia'' @ [EM_DASH] @ js ''longstanding restaurants, charity events, volunteer traditions?'',
        js ''Beloved community rituals, memorials, or volunteer efforts that bring neighbors together in {city}, {state}.'',
        js ''What stories make residents of {city}, {state} light up when they talk about home?''],
      limit = Some 2\<rparr>]"

text \<open>
  \<open>StrategicContextBuckets\<close> has one list for each of the eighteen keys and the
  snapshot. The eighteen fields are modelled as one field indexed by the key, so that
  \<open>buckets[key] = values\<close> is an update at \<open>key\<close>.
\<close>

record StrategicContextBuckets =
  bucketOf :: "ContextBucketKey \<Rightarrow> jstr list"
  city_snapshot :: "jstr option"

definition emptyStrategicBuckets :: StrategicContextBuckets where
  "emptyStrategicBuckets = \<lparr>bucketOf = (\<lambda>k. []), city_snapshot = None\<rparr>"

fun expandReplacement :: "jstr \<Rightarrow> jstr \<Rightarrow> jstr \<Rightarrow> jstr \<Rightarrow> jstr" where
  \<comment> \<open>the replacement text of \<open>String.prototype.replace\<close> for a string pattern: the
      dollar patterns \<open>$$\<close>, \<open>$&\<close>, \<open>$`\<close> and \<open>$'\<close>, given the text before the match,
      the match and the text after it\<close>
  "expandReplacement pre m post [] = []"
| "expandReplacement pre m post [c] = [c]"
| "expandReplacement pre m post (c # d # r) =
     (if c = 36 \<and> d = 36 then 36 # expandReplacement pre m post r
      else if c = 36 \<and> d = 38 then m @ expandReplacement pre m post r
      else if c = 36 \<and> d = 96 then pre @ expandReplacement pre m post r
      else if c = 36 \<and> d = 39 then post @ expandReplacement pre m post r
      else c # expandReplacement pre m post (d # r))"

definition replaceFirst :: "jstr \<Rightarrow> jstr \<Rightarrow> jstr \<Rightarrow> jstr" where
  \<comment> \<open>\<open>s.replace(pattern, replacement)\<close> for a string pattern, written
      \<open>replaceFirst pattern replacement s\<close>: the first occurrence only\<close>
  "replaceFirst pattern replacement s =
     (case cutAt (startsWith pattern) (length pattern) s of
        None \<Rightarrow> s
      | Some (pre, post) \<Rightarrow> pre @ expandReplacement pre pattern post replacement @ post)"

fun pushSnippets :: "nat \<Rightarrow> jstr list \<Rightarrow> jstr list \<Rightarrow> jstr list" where
  \<comment> \<open>the inner loop: the snippets of one response into the bucket\<close>
  "pushSnippets cap bucket [] = bucket"
| "pushSnippets cap bucket (snippet # rest) =
     (if snippet \<in> set bucket then pushSnippets cap bucket rest
      else if length (bucket @ [snippet]) \<ge> cap then bucket @ [snippet]
      else pushSnippets cap (bucket @ [snippet]) rest)"

fun mergeResponses :: "nat \<Rightarrow> jstr list \<Rightarrow> jstr list list \<Rightarrow> jstr list" where
  \<comment> \<open>the outer loop over the fulfilled responses\<close>
  "mergeResponses cap bucket [] = bucket"
| "mergeResponses cap bucket (response # rest) =
     (let bucket' = pushSnippets cap bucket response in
      if length bucket' \<ge> cap then bucket' else mergeResponses cap bucket' rest)"

definition bucketQueries :: "jstr \<Rightarrow> jstr \<Rightarrow> jstr \<Rightarrow> jstr list \<Rightarrow> jstr list" where
  \<comment> \<open>the templates with \<open>{city}\<close>, \<open>{state}\<close> and \<open>{zip}\<close> replaced, in this order\<close>
  "bucketQueries city state zipcode ts =
     map (\<lambda>template.
            replaceFirst (js ''{zip}'') zipcode
              (replaceFirst (js ''{state}'') state
                 (replaceFirst (js ''{city}'') city template))) ts"

definition fillBucket ::
  "(jstr \<Rightarrow> ddg_body fetched) \<Rightarrow> jstr \<Rightarrow> jstr \<Rightarrow> jstr \<Rightarrow> StrategicQueryConfig \<Rightarrow>
   ContextBucketKey \<times> jstr list" where
  \<comment> \<open>the mapper given to \<open>mapWithConcurrency\<close>. All queries of the bucket are sent;
      \<open>queryDuckDuckGoSnippets\<close> never rejects, so every outcome of
      \<open>Promise.allSettled\<close> is fulfilled.\<close>
  "fillBucket ddg city state zipcode config =
     (let cap = (case limit config of None \<Rightarrow> 3 | Some l \<Rightarrow> l);
          queries = bucketQueries city state zipcode (templates config);
          responses = map (\<lambda>query. queryDuckDuckGoSnippets ddg query cap) queries
      in (key config, mergeResponses cap [] responses))"

definition firstOf :: "jstr list \<Rightarrow> jstr option" where
  \<comment> \<open>\<open>xs[0]\<close> as an operand of \<open>||\<close>: absent when there is no element or it is empty\<close>
  "firstOf xs = (case xs of [] \<Rightarrow> None | x # _ \<Rightarrow> if x = [] then None else Some x)"

fun firstTruthy :: "jstr option list \<Rightarrow> jstr option" where
  "firstTruthy [] = None"
| "firstTruthy (None # vs) = firstTruthy vs"
| "firstTruthy (Some v # vs) = Some v"

definition snapshotOf :: "(ContextBucketKey \<Rightarrow> jstr list) \<Rightarrow> jstr option" where
  "snapshotOf b =
     firstTruthy (map (\<lambda>k. firstOf (b k))
       [state_identity, state_trends, community_traditions, iconic_destinations,
        outdoor_showstoppers, neighborhood_archetypes, food_and_drink,
        emotional_connectors, positive_news])"

fun assignBuckets ::
  "(ContextBucketKey \<times> jstr list) list \<Rightarrow> StrategicContextBuckets \<Rightarrow> StrategicContextBuckets" where
  \<comment> \<open>\<open>for (const [key, values] of entries) buckets[key] = values\<close>\<close>
  "assignBuckets [] buckets = buckets"
| "assignBuckets ((k, values) # entries) buckets =
     assignBuckets entries (buckets\<lparr>bucketOf := (bucketOf buckets)(k := values)\<rparr>)"

definition replacementCity :: "jstr \<Rightarrow> jstr \<Rightarrow> jstr" where
  \<comment> \<open>\<open>city || state\<close>\<close>
  "replacementCity c s = (if c = [] then s else c)"

definition fetchStrategicContext ::
  "(jstr \<Rightarrow> ddg_body fetched) \<Rightarrow> jstr \<Rightarrow> jstr \<Rightarrow> jstr \<Rightarrow> error + StrategicContextBuckets" where
  "fetchStrategicContext ddg city state zipcode =
     (if state = [] then Inr emptyStrategicBuckets
      else
        (case mapWithConcurrency STRATEGIC_QUERIES 4
                (\<lambda>config index.
                   Inr (fillBucket ddg (replacementCity city state) state zipcode config)) of
           Inl e \<Rightarrow> Inl e
         | Inr slots \<Rightarrow>
             (case filled slots of
                Inl e \<Rightarrow> Inl e
              | Inr entries \<Rightarrow>
                  (let buckets = assignBuckets entries emptyStrategicBuckets
                   in Inr (buckets\<lparr>city_snapshot := snapshotOf (bucketOf buckets)\<rparr>)))))"

section \<open>Place Source\<close>

text \<open>
  Numbers that are computed in floating point (coordinates, distances) are values of a
  type parameter \<open>'n\<close>. The functions on them that the code uses are taken as
  parameters: the rounded great-circle distance and the decimal text of a number.
\<close>

record 'n OsmItem =
  display_name :: "jstr option"   \<comment> \<open>the field when it is a string\<close>
  lat :: "'n option"              \<comment> \<open>\<open>parseFloat(item.lat)\<close> when finite\<close>
  lon :: "'n option"
  wikipedia :: "jstr option"
  website :: "jstr option"

datatype 'n osm_body =
    OsmNotJson jstr               \<comment> \<open>\<open>response.json()\<close> rejects\<close>
  | OsmNotIterable                \<comment> \<open>JSON that \<open>for ... of\<close> cannot iterate\<close>
  | OsmItems "'n OsmItem list"

record 'n LocalPlace =
  name :: jstr
  category :: "jstr option"
  distance_miles :: "'n option"
  url :: "jstr option"
  summary :: "jstr option"

definition placeQueries :: "(jstr \<times> jstr) list" where
  \<comment> \<open>\<open>queries\<close> in \<open>fetchLocalPlaces\<close>\<close>
  "placeQueries =
     [(js ''park'', js ''Park''),
      (js ''trail'', js ''Trail''),
      (js ''lake'', js ''Lake''),
      (js ''stadium'', js ''Stadium''),
      (js ''recreation center'', js ''Rec Center''),
      (js ''community center'', js ''Community Hub''),
      (js ''museum'', js ''Museum''),
      (js ''farmers market'', js ''Market''),
      (js ''shopping center'', js ''Shopping Destination''),
      (js ''brewery'', js ''Brewery'')]"

fun placesOf ::
  "('n \<Rightarrow> 'n \<Rightarrow> 'n) \<Rightarrow> jstr \<Rightarrow> 'n OsmItem list \<Rightarrow> 'n LocalPlace list" where
  \<comment> \<open>the loop over the items of one response; \<open>dist\<close> is the rounded distance from the
      input coordinates\<close>
  "placesOf dist label [] = []"
| "placesOf dist label (item # items) =
     (if \<not> truthy (display_name item) then placesOf dist label items
      else
        \<lparr>name = hd (splitOn 44 (the (display_name item))),
         category = Some label,
         distance_miles =
           (case (lat item, lon item) of
              (Some placeLat, Some placeLon) \<Rightarrow> Some (dist placeLat placeLon)
            | _ \<Rightarrow> None),
         url = (if truthy (wikipedia item) then wikipedia item
                else if truthy (website item) then website item else None),
         summary = None\<rparr> # placesOf dist label items)"

definition placesOrThrow ::
  "('n \<Rightarrow> 'n \<Rightarrow> 'n) \<Rightarrow> jstr \<Rightarrow> 'n osm_body fetched \<Rightarrow> error + 'n LocalPlace list" where
  \<comment> \<open>the body of the \<open>try\<close> block of the category mapper\<close>
  "placesOrThrow dist label reply =
     (case reply of
        Rejected m \<Rightarrow> Inl (Platform m)
      | Response status body \<Rightarrow>
          if \<not> ok status then Inr []
          else (case body of
                  OsmNotJson m \<Rightarrow> Inl (Platform m)
                | OsmNotIterable \<Rightarrow> Inl TypeError
                | OsmItems items \<Rightarrow> Inr (placesOf dist label items)))"

definition categoryPlaces ::
  "(jstr \<Rightarrow> 'n \<Rightarrow> 'n \<Rightarrow> nat \<Rightarrow> 'n osm_body fetched) \<Rightarrow> ('n \<Rightarrow> 'n \<Rightarrow> 'n \<Rightarrow> 'n \<Rightarrow> 'n) \<Rightarrow>
   'n \<Rightarrow> 'n \<Rightarrow> nat \<Rightarrow> jstr \<times> jstr \<Rightarrow> 'n LocalPlace list" where
  \<comment> \<open>the category mapper: \<open>osm\<close> is the places endpoint, asked for a query inside the
      box around the coordinates with a limit; the \<open>catch\<close> gives the empty list\<close>
  "categoryPlaces osm distance latitude longitude lim q =
     (case placesOrThrow (distance latitude longitude) (snd q)
             (osm (fst q) latitude longitude lim) of
        Inl e \<Rightarrow> []
      | Inr places \<Rightarrow> places)"

fun addPlaces ::
  "jstr list \<Rightarrow> 'n LocalPlace list \<Rightarrow> 'n LocalPlace list \<Rightarrow> jstr list \<times> 'n LocalPlace list" where
  \<comment> \<open>the inner loop of the merge, on the set \<open>seen\<close> and the list \<open>results\<close>, here
      \<open>merged\<close>\<close>
  "addPlaces seen merged [] = (seen, merged)"
| "addPlaces seen merged (place # rest) =
     (if toLowerCase (name place) \<in> set seen then addPlaces seen merged rest
      else addPlaces (toLowerCase (name place) # seen) (merged @ [place]) rest)"

fun mergePlaces ::
  "jstr list \<Rightarrow> 'n LocalPlace list \<Rightarrow> 'n LocalPlace list list \<Rightarrow> 'n LocalPlace list" where
  \<comment> \<open>the outer loop over the lists of the categories\<close>
  "mergePlaces seen merged [] = merged"
| "mergePlaces seen merged (placeList # rest) =
     (case addPlaces seen merged placeList of
        (seen', merged') \<Rightarrow> mergePlaces seen' merged' rest)"

definition fetchLocalPlaces ::
  "(jstr \<Rightarrow> 'n \<Rightarrow> 'n \<Rightarrow> nat \<Rightarrow> 'n osm_body fetched) \<Rightarrow> ('n \<Rightarrow> 'n \<Rightarrow> 'n \<Rightarrow> 'n \<Rightarrow> 'n) \<Rightarrow>
   'n option \<Rightarrow> 'n option \<Rightarrow> nat \<Rightarrow> error + 'n LocalPlace list" where
  "fetchLocalPlaces osm distance latitude longitude lim =
     (case (latitude, longitude) of
        (Some la, Some lo) \<Rightarrow>
          (case mapWithConcurrency placeQueries 3
                  (\<lambda>q index. Inr (categoryPlaces osm distance la lo lim q)) of
             Inl e \<Rightarrow> Inl e
           | Inr slots \<Rightarrow>
               (case filled slots of
                  Inl e \<Rightarrow> Inl e
                | Inr queryResults \<Rightarrow> Inr (mergePlaces [] [] queryResults)))
      | _ \<Rightarrow> Inr [])"

section \<open>Place Enricher\<close>

definition summarizePlace :: "('n \<Rightarrow> jstr) \<Rightarrow> 'n LocalPlace \<Rightarrow> jstr" where
  \<comment> \<open>\<open>showNumber\<close> is the text of a number in a template literal\<close>
  "summarizePlace showNumber place =
     (let descriptors =
            (if truthy (category place) then [toLowerCase (the (category place))] else []) @
            (case distance_miles place of
               None \<Rightarrow> []
             | Some d \<Rightarrow> [showNumber d @ js '' miles from the ZIP center'']);
          descriptorText =
            (if descriptors = [] then js ''local favorite'' else join (js '', '') descriptors)
      in name place @ js '' is a '' @ descriptorText @
         (if truthy (url place) then js '' that residents often mention online.''
          else js ''.''))"

fun firstHighlight :: "(jstr \<Rightarrow> ddg_body fetched) \<Rightarrow> jstr list \<Rightarrow> jstr option" where
  \<comment> \<open>the loop over the highlight queries: the first snippet of the first query that
      has one\<close>
  "firstHighlight ddg [] = None"
| "firstHighlight ddg (query # rest) =
     (case firstOf (queryDuckDuckGoSnippets ddg query 1) of
        Some highlight \<Rightarrow> Some highlight
      | None \<Rightarrow> firstHighlight ddg rest)"

definition enrichPlace ::
  "(jstr \<Rightarrow> ddg_body fetched) \<Rightarrow> ('n \<Rightarrow> jstr) \<Rightarrow> jstr \<Rightarrow> jstr \<Rightarrow> 'n LocalPlace \<times> nat \<Rightarrow>
   'n LocalPlace" where
  \<comment> \<open>one task of \<open>enrichLocalPlaces\<close>, for a place and its index\<close>
  "enrichPlace ddg showNumber city state pi =
     (let place = fst pi; index = snd pi;
          generic = summarizePlace showNumber place;
          highlight =
            (if city \<noteq> [] \<and> state \<noteq> [] \<and> index < 3 then
               firstHighlight ddg
                 [js ''Why do locals love '' @ name place @ js '' in '' @ city @ js '', '' @
                    state @ js ''?'',
                  name place @ js '' '' @ city @ js '' '' @ state @ js '' popular activities'']
             else None)
      in place\<lparr>summary := Some (case highlight of None \<Rightarrow> generic | Some h \<Rightarrow> h)\<rparr>)"

definition enrichLocalPlaces ::
  "(jstr \<Rightarrow> ddg_body fetched) \<Rightarrow> ('n \<Rightarrow> jstr) \<Rightarrow> 'n LocalPlace list \<Rightarrow> jstr \<Rightarrow> jstr \<Rightarrow>
   'n LocalPlace list" where
  "enrichLocalPlaces ddg showNumber places city state =
     map (enrichPlace ddg showNumber city state) (List.zip places [0..<length places])"

section \<open>Geo Resolver\<close>

record 'n ZipPlace =
  place_name :: "jstr option"               \<comment> \<open>\<open>"place name"\<close>\<close>
  state_abbreviation :: "jstr option"       \<comment> \<open>\<open>"state abbreviation"\<close>\<close>
  state_full :: "jstr option"               \<comment> \<open>\<open>"state"\<close>\<close>
  place_latitude :: "'n option"             \<comment> \<open>\<open>parseFloat\<close> of \<open>"latitude"\<close> when finite\<close>
  place_longitude :: "'n option"

datatype 'n zip_body =
    ZipNotJson jstr                         \<comment> \<open>\<open>res.json()\<close> rejects\<close>
  | ZipJson "jstr option" "'n ZipPlace list option"
      \<comment> \<open>\<open>data["post code"]\<close>, and \<open>data.places\<close> when it is an array\<close>

record 'n GeoResult =
  zip_code :: jstr                          \<comment> \<open>the field \<open>zip\<close>\<close>
  city :: jstr
  state :: jstr
  latitude :: "'n option"
  longitude :: "'n option"

definition orElse :: "jstr option \<Rightarrow> jstr \<Rightarrow> jstr" where
  \<comment> \<open>the operator \<open>??\<close>\<close>
  "orElse v d = (case v of None \<Rightarrow> d | Some s \<Rightarrow> s)"

definition lookupZip ::
  "(jstr \<Rightarrow> 'n zip_body fetched) \<Rightarrow> jstr \<Rightarrow> error + 'n GeoResult option" where
  \<comment> \<open>\<open>zippo\<close> is the geocoding endpoint; the result \<open>None\<close> is the source's \<open>null\<close>\<close>
  "lookupZip zippo z =
     (case zippo z of
        Rejected m \<Rightarrow> Inl (Platform m)
      | Response status body \<Rightarrow>
          if status = 404 then Inr None
          else if \<not> ok status then Inl (GeoStatus status)
          else (case body of
                  ZipNotJson m \<Rightarrow> Inl (Platform m)
                | ZipJson post_code places \<Rightarrow>
                    (case (case places of None \<Rightarrow> [] | Some ps \<Rightarrow> ps) of
                       [] \<Rightarrow> Inr None
                     | first # _ \<Rightarrow>
                         Inr (Some \<lparr>zip_code = orElse post_code z,
                                    city = orElse (place_name first) [],
                                    state = orElse (state_abbreviation first)
                                              (orElse (state_full first) []),
                                    latitude = place_latitude first,
                                    longitude = place_longitude first\<rparr>))))"

section \<open>Synthesis request\<close>

record 'n Location =
  loc_zip :: jstr
  loc_city :: jstr
  loc_state :: jstr
  coordinates :: "('n \<times> 'n) option"

record 'n SynthesisContext =
  location :: "'n Location"
  strategic_context :: StrategicContextBuckets
  anchor_spots :: "'n LocalPlace list"

datatype grok_json =
    GrokNotJson jstr              \<comment> \<open>\<open>response.json()\<close> rejects\<close>
  | GrokNoContent                 \<comment> \<open>\<open>choices[0].message.content\<close> is no string\<close>
  | GrokContent jstr

record grok_body =
  body_text :: jstr               \<comment> \<open>the body as text, empty when it cannot be read\<close>
  body_json :: grok_json          \<comment> \<open>the body as JSON\<close>

record 'n world =
  zippopotam :: "jstr \<Rightarrow> 'n zip_body fetched"
  duckduckgo :: "jstr \<Rightarrow> ddg_body fetched"
  nominatim :: "jstr \<Rightarrow> 'n \<Rightarrow> 'n \<Rightarrow> nat \<Rightarrow> 'n osm_body fetched"
  grok :: "'n SynthesisContext \<Rightarrow> grok_body fetched"
  geoDeadline :: bool             \<comment> \<open>the 8 s of \<open>withTimeout\<close> pass before \<open>lookupZip\<close> settles\<close>
  contextDeadline :: bool         \<comment> \<open>the 20 s pass before \<open>fetchStrategicContext\<close> settles\<close>
  placesDeadline :: bool          \<comment> \<open>the 20 s pass before \<open>fetchLocalPlaces\<close> settles\<close>
  distance :: "'n \<Rightarrow> 'n \<Rightarrow> 'n \<Rightarrow> 'n \<Rightarrow> 'n"
     \<comment> \<open>\<open>Math.round(haversineMiles(lat1, lon1, lat2, lon2) * 10) / 10\<close>\<close>
  showNumber :: "'n \<Rightarrow> jstr"
  GROK_API_KEY :: "jstr option"
  grokApiUrl :: "jstr option"
  validUrl :: "jstr \<Rightarrow> bool"     \<comment> \<open>\<open>new URL(s)\<close> does not throw\<close>
  CACHE_TTL_SECONDS :: "int option"
     \<comment> \<open>\<open>Number(process.env.CACHE_TTL_SECONDS)\<close> when it is a number\<close>

definition callGrok :: "'n world \<Rightarrow> 'n SynthesisContext \<Rightarrow> error + GrokSynthesis" where
  "callGrok w context =
     (if \<not> truthy (GROK_API_KEY w) then Inl MissingApiKey
      else if \<not> truthy (grokApiUrl w) then Inl MissingApiUrl
      else if \<not> validUrl w (the (grokApiUrl w)) then Inl InvalidApiUrl
      else
        (case grok w context of
           Rejected m \<Rightarrow> Inl (Platform m)
         | Response status body \<Rightarrow>
             if \<not> ok status then
               Inl (GrokStatus status (take 500 (body_text body)))
             else (case body_json body of
                     GrokNotJson m \<Rightarrow> Inl (Platform m)
                   | GrokNoContent \<Rightarrow> Inl InvalidContent
                   | GrokContent content \<Rightarrow> parseSynthesis content)))"

section \<open>Response Cache and Orchestrator\<close>

record RapportSummary =
  local_lifestyle_hook :: jstr
  equity_or_payment_hook :: jstr
  intent_probe :: jstr

record 'n SupportingData =
  supporting_context :: StrategicContextBuckets     \<comment> \<open>\<open>strategic_context\<close>\<close>
  local_places :: "'n LocalPlace list"

record 'n ZipRapportResponse =
  response_zip :: jstr                              \<comment> \<open>\<open>zip\<close>\<close>
  response_city :: jstr                             \<comment> \<open>\<open>city\<close>\<close>
  response_state :: jstr                            \<comment> \<open>\<open>state\<close>\<close>
  summary_card :: RapportSummary
  knowledge_brief :: KnowledgeBrief
  grok_anchors :: "GrokAnchor list"
  raw_supporting_data :: "'n SupportingData"

record 'n CacheEntry =
  timestamp :: int
  payload :: "'n ZipRapportResponse"

type_synonym 'n cache = "jstr \<Rightarrow> 'n CacheEntry option"

definition CACHE_TTL_MS :: "'n world \<Rightarrow> int" where
  \<comment> \<open>\<open>(Number(process.env.CACHE_TTL_SECONDS) || 6 * 60 * 60) * 1000\<close>\<close>
  "CACHE_TTL_MS w =
     (case CACHE_TTL_SECONDS w of
        None \<Rightarrow> 6 * 60 * 60
      | Some s \<Rightarrow> if s = 0 then 6 * 60 * 60 else s) * 1000"

definition validateZip :: "jstr \<Rightarrow> bool" where
  \<comment> \<open>\<open>/^\d{5}$/\<close>\<close>
  "validateZip z \<longleftrightarrow> length z = 5 \<and> list_all (\<lambda>c. 48 \<le> c \<and> c \<le> 57) z"

definition includesStr :: "jstr \<Rightarrow> jstr \<Rightarrow> bool" where
  \<comment> \<open>\<open>s.includes(sub)\<close>, written \<open>includesStr sub s\<close>\<close>
  "includesStr sub s \<longleftrightarrow> cutAt (startsWith sub) (length sub) s \<noteq> None"

definition mentionsApiKey :: "error \<Rightarrow> bool" where
  \<comment> \<open>\<open>message.includes("GROK_API_KEY")\<close> for the message of the error\<close>
  "mentionsApiKey e =
     (case e of
        MissingApiKey \<Rightarrow> True
      | Platform m \<Rightarrow> includesStr (js ''GROK_API_KEY'') m
      | GrokStatus status preview \<Rightarrow> includesStr (js ''GROK_API_KEY'') preview
      | _ \<Rightarrow> False)"

datatype 'n response =
    Payload "'n ZipRapportResponse"   \<comment> \<open>status 200 with the payload as JSON\<close>
  | Detail nat jstr                   \<comment> \<open>a status with \<open>{ detail }\<close>\<close>
  | Failure nat error                 \<comment> \<open>a status with the error's message as detail\<close>

datatype stage = GeoResolve | ContextFetch | PlaceFetch | PlaceEnrich | Synthesize

definition freshEntry :: "'n world \<Rightarrow> 'n cache \<Rightarrow> int \<Rightarrow> jstr \<Rightarrow> 'n CacheEntry option" where
  \<comment> \<open>\<open>cached && now - cached.timestamp < CACHE_TTL_MS\<close>. The guard on the shape of the
      cached payload that follows holds for every value of the payload's type, and
      \<open>grok_anchors\<close> is a list and so never replaced.\<close>
  "freshEntry w cache now z =
     (case cache z of
        None \<Rightarrow> None
      | Some cached \<Rightarrow> if now - timestamp cached < CACHE_TTL_MS w then Some cached else None)"

definition withTimeout :: "bool \<Rightarrow> error + 'a \<Rightarrow> error + 'a" where
  \<comment> \<open>\<open>withTimeout(promise, ms, message)\<close>: the promise's outcome, or the timeout error
      when the deadline passes first\<close>
  "withTimeout deadlinePassed r = (if deadlinePassed then Inl Timeout else r)"

definition caught :: "'a \<Rightarrow> error + 'a \<Rightarrow> 'a" where
  \<comment> \<open>\<open>promise.catch(() => fallback)\<close>, written \<open>caught fallback promise\<close>\<close>
  "caught fallback r = (case r of Inl e \<Rightarrow> fallback | Inr v \<Rightarrow> v)"

definition failureOf :: "error \<Rightarrow> 'n response" where
  \<comment> \<open>the \<open>catch\<close> of \<open>GET\<close>\<close>
  "failureOf e = Failure (if mentionsApiKey e then 503 else 502) e"

definition GET ::
  "'n world \<Rightarrow> 'n cache \<Rightarrow> int \<Rightarrow> jstr \<Rightarrow> 'n response \<times> 'n cache \<times> stage list" where
  \<comment> \<open>one request: the cache before it, the value of \<open>Date.now()\<close> read at its start and
      the ZIP of the route give the response, the cache after it and the stages that
      were started, which are the only places where upstream calls are made\<close>
  "GET w cache now z =
     (if \<not> validateZip z then (Detail 400 (js ''ZIP code must be 5 digits.''), cache, [])
      else
        (case freshEntry w cache now z of
           Some cached \<Rightarrow> (Payload (payload cached), cache, [])
         | None \<Rightarrow>
             (case withTimeout (geoDeadline w) (lookupZip (zippopotam w) z) of
                Inl e \<Rightarrow> (failureOf e, cache, [GeoResolve])
              | Inr None \<Rightarrow>
                  (Detail 404 (js ''ZIP '' @ z @ js '' not found.''), cache, [GeoResolve])
              | Inr (Some geo) \<Rightarrow>
                  (let strategicContext =
                         caught emptyStrategicBuckets
                           (withTimeout (contextDeadline w)
                              (fetchStrategicContext (duckduckgo w) (city geo) (state geo)
                                 (zip_code geo)));
                       places =
                         caught []
                           (withTimeout (placesDeadline w)
                              (fetchLocalPlaces (nominatim w) (distance w) (latitude geo)
                                 (longitude geo) 5));
                       enhancedPlaces =
                         enrichLocalPlaces (duckduckgo w) (showNumber w) places
                           (city geo) (state geo);
                       context =
                         \<lparr>location =
                            \<lparr>loc_zip = zip_code geo, loc_city = city geo, loc_state = state geo,
                             coordinates =
                               (case (latitude geo, longitude geo) of
                                  (Some la, Some lo) \<Rightarrow> Some (la, lo)
                                | _ \<Rightarrow> None)\<rparr>,
                          strategic_context = strategicContext,
                          anchor_spots = take 6 enhancedPlaces\<rparr>;
                       stages = [GeoResolve, ContextFetch, PlaceFetch, PlaceEnrich, Synthesize]
                   in (case callGrok w context of
                         Inl e \<Rightarrow> (failureOf e, cache, stages)
                       | Inr synthesis \<Rightarrow>
                           (let p =
                                  \<lparr>response_zip = zip_code geo,
                                   response_city = city geo,
                                   response_state = state geo,
                                   summary_card =
                                     \<lparr>local_lifestyle_hook = [], equity_or_payment_hook = [],
                                      intent_probe = []\<rparr>,
                                   knowledge_brief = knowledge synthesis,
                                   grok_anchors = anchors synthesis,
                                   raw_supporting_data =
                                     \<lparr>supporting_context = strategicContext,
                                      local_places = enhancedPlaces\<rparr>\<rparr>
                            in (Payload p, cache(z := Some \<lparr>timestamp = now, payload = p\<rparr>),
                                stages)))))))"

section \<open>Notions used in the statements\<close>

fun firstBy :: "('a \<Rightarrow> 'k) \<Rightarrow> 'k list \<Rightarrow> 'a list \<Rightarrow> 'a list" where
  \<comment> \<open>the elements of a list whose key, under \<open>f\<close>, is not in \<open>seen\<close> and not the key
      of an earlier element: the first of every key, in the order of the list\<close>
  "firstBy f seen [] = []"
| "firstBy f seen (x # xs) =
     (if f x \<in> set seen then firstBy f seen xs else x # firstBy f (f x # seen) xs)"

fun tidy :: "jstr \<Rightarrow> bool" where
  \<comment> \<open>every white-space unit is a space, and is followed by a unit that is none\<close>
  "tidy [] = True"
| "tidy (c # r) = ((isSpace c \<longrightarrow> c = 32 \<and> (r \<noteq> [] \<longrightarrow> \<not> isSpace (hd r))) \<and> tidy r)"

definition capOf :: "StrategicQueryConfig \<Rightarrow> nat" where
  \<comment> \<open>the cap of a bucket: \<open>limit = 3\<close> in the mapper's parameter list\<close>
  "capOf config = (case limit config of None \<Rightarrow> 3 | Some l \<Rightarrow> l)"

definition snippetFailure :: "ddg_body fetched \<Rightarrow> bool" where
  \<comment> \<open>a transport error, a non-success status, or a body that gives no response object\<close>
  "snippetFailure reply =
     (case reply of
        Rejected m \<Rightarrow> True
      | Response status body \<Rightarrow>
          \<not> ok status \<or> (case body of BodyJson data \<Rightarrow> False | _ \<Rightarrow> True))"

definition placeFailure :: "'n osm_body fetched \<Rightarrow> bool" where
  \<comment> \<open>a transport error, a non-success status, or a body that gives no list of items\<close>
  "placeFailure reply =
     (case reply of
        Rejected m \<Rightarrow> True
      | Response status body \<Rightarrow>
          \<not> ok status \<or> (case body of OsmItems items \<Rightarrow> False | _ \<Rightarrow> True))"

definition allStages :: "stage list" where
  \<comment> \<open>the stages of a request that is not answered from the cache and finds its ZIP\<close>
  "allStages = [GeoResolve, ContextFetch, PlaceFetch, PlaceEnrich, Synthesize]"

section \<open>Notions used in the proofs\<close>

text \<open>
  Every step of the pool lowers the number of waiting workers plus the number of items
  that no worker has taken yet.
\<close>

definition remaining :: "nat \<Rightarrow> ('e, 'r) pool \<Rightarrow> nat" where
  "remaining n p = outstanding p + (n - cursor p)"

text \<open>
  The invariant of the pool when every promise of the mapper is fulfilled, \<open>g i\<close>
  being the value for item \<open>i\<close>: the workers wait for distinct items below the
  cursor, a worker has returned only after the cursor passed the last item, and the
  result array holds exactly the values of the items that were taken and are no longer
  waited for.
\<close>

definition pool_inv :: "nat \<Rightarrow> (nat \<Rightarrow> 'r) \<Rightarrow> ('e, 'r) pool \<Rightarrow> bool" where
  "pool_inv n g p \<longleftrightarrow>
     length (results p) = n \<and> rejection p = None \<and>
     (\<forall>w < length (workers p).
        case workers p ! w of
          Awaiting i \<Rightarrow> i < n \<and> i < cursor p
        | Returned \<Rightarrow> n \<le> cursor p
        | Threw e \<Rightarrow> False) \<and>
     (\<forall>w < length (workers p). \<forall>w' < length (workers p). \<forall>i.
        workers p ! w = Awaiting i \<and> workers p ! w' = Awaiting i \<longrightarrow> w = w') \<and>
     (\<forall>i < n. results p ! i =
        (if i < cursor p \<and> Awaiting i \<notin> set (workers p) then Some (g i) else None))"

section \<open>Example worlds\<close>

text \<open>
  A search endpoint that answers the first phrasing of a bucket ("How ...") with the
  heading \<open>Phoenix\<close>, the second ("Signature ...") with the heading \<open>PHOENIX\<close>,
  and fails on every other query.
\<close>

definition twoSpellings :: "jstr \<Rightarrow> ddg_body fetched" where
  "twoSpellings query =
     (if take 3 query = js ''How'' then
        Response 200 (BodyJson \<lparr>Heading = Some (js ''Phoenix''), AbstractText = None,
                                Abstract = None, Answer = None, Infobox = None,
                                RelatedTopics = None\<rparr>)
      else if take 3 query = js ''Sig'' then
        Response 200 (BodyJson \<lparr>Heading = Some (js ''PHOENIX''), AbstractText = None,
                                Abstract = None, Answer = None, Infobox = None,
                                RelatedTopics = None\<rparr>)
      else Rejected [])"

text \<open>
  A world for the examples: the geocoder knows Phoenix, every search query and every
  places query fails, and the model replies with one sentence.
\<close>

definition phoenix :: "nat zip_body fetched" where
  "phoenix =
     Response 200
       (ZipJson (Some (js ''85001''))
          (Some [\<lparr>place_name = Some (js ''Phoenix''), state_abbreviation = Some (js ''AZ''),
                  state_full = Some (js ''Arizona''), place_latitude = Some 33,
                  place_longitude = Some 112\<rparr>]))"

definition quietWorld :: "nat world" where
  "quietWorld =
     \<lparr>zippopotam = (\<lambda>z. phoenix),
      duckduckgo = (\<lambda>query. Rejected (js ''fetch failed'')),
      nominatim = (\<lambda>query la lo lim. Response 503 (OsmNotJson [])),
      grok = (\<lambda>context.
                Response 200 \<lparr>body_text = [], body_json = GrokContent (js ''STATE_IDENTITY: Sunny.'')\<rparr>),
      geoDeadline = False, contextDeadline = False, placesDeadline = False,
      distance = (\<lambda>lat1 lon1 lat2 lon2. 0),
      showNumber = (\<lambda>n. js ''0''),
      GROK_API_KEY = Some (js ''key''),
      grokApiUrl = Some (js ''https://api.x.ai''),
      validUrl = (\<lambda>s. True),
      CACHE_TTL_SECONDS = None\<rparr>"

definition thinPayload :: "nat ZipRapportResponse" where
  "thinPayload =
     \<lparr>response_zip = js ''85001'', response_city = js ''Phoenix'', response_state = js ''AZ'',
      summary_card =
        \<lparr>local_lifestyle_hook = [], equity_or_payment_hook = [], intent_probe = []\<rparr>,
      knowledge_brief = [(js ''state_identity'', [js ''Sunny.''])],
      grok_anchors = [],
      raw_supporting_data =
        \<lparr>supporting_context = emptyStrategicBuckets, local_places = []\<rparr>\<rparr>"

text \<open>
  The answer of a geocoder that has no place for a ZIP and says so with status 200 and
  an empty list of places.
\<close>

definition nowhere :: "nat zip_body fetched" where
  "nowhere = Response 200 (ZipJson None (Some []))"

text \<open>
  A places endpoint with results for two categories: a park and a record without
  display name, then the same park in capitals and a trail.
\<close>

definition twoParks :: "jstr \<Rightarrow> nat \<Rightarrow> nat \<Rightarrow> nat \<Rightarrow> nat osm_body fetched" where
  "twoParks query la lo lim =
     (if query = js ''park'' then
        Response 200
          (OsmItems
             [\<lparr>display_name = Some (js ''Central Park, Phoenix''), lat = None, lon = None,
               wikipedia = None, website = None\<rparr>,
              \<lparr>display_name = None, lat = None, lon = None, wikipedia = None,
               website = Some (js ''https://example.org'')\<rparr>])
      else if query = js ''trail'' then
        Response 200
          (OsmItems
             [\<lparr>display_name = Some (js ''CENTRAL PARK, Trailhead''), lat = None, lon = None,
               wikipedia = None, website = None\<rparr>,
              \<lparr>display_name = Some (js ''River Trail, Phoenix''), lat = None, lon = None,
               wikipedia = None, website = None\<rparr>])
      else Rejected (js ''fetch failed''))"

text \<open>
  A search response with a heading, the same text in lower case as abstract text, and
  an abstract with runs of white space.
\<close>

definition threeFields :: "jstr \<Rightarrow> ddg_body fetched" where
  "threeFields query =
     Response 200
       (BodyJson \<lparr>Heading = Some (js ''Phoenix''), AbstractText = Some (js ''  phoenix  ''),
                  Abstract = Some (js ''A  desert'' @ [9] @ js ''city!''), Answer = None,
                  Infobox = None, RelatedTopics = None\<rparr>)"

section \<open>Evaluation\<close>

lemmas string_ops =
  js_def trim_def isSpace_def lowerUnit_def toLowerCase_def startsWith_def Let_def

lemmas parser_ops =
  FENCE_def fencedBlock_def inheritedKeys_def pushSentence_def parseLine_def
  extractContent_def contentLines_def parseSynthesis_def

section \<open>Properties of the Synthesis Parser\<close>

lemma splitOn_nonempty: "splitOn c s \<noteq> []"
  by (induction s) (auto split: list.splits)

lemma length_splitOn: "length (splitOn c s) = count_list s c + 1"
  using splitOn_nonempty[of c] by (induction s) (auto split: list.splits)

lemma join_splitOn: "join [c] (splitOn c s) = s"
proof (induction s)
  case Nil
  show ?case by simp
next
  case (Cons x xs)
  obtain f fs where e: "splitOn c xs = f # fs"
    using splitOn_nonempty[of c xs] by (cases "splitOn c xs") auto
  show ?case using Cons e by (cases fs) auto
qed

lemma splitOn_fields: "f \<in> set (splitOn c s) \<Longrightarrow> c \<notin> set f"
  by (induction s arbitrary: f) (auto split: list.splits if_splits)

lemma indexOf_None: "indexOf c s = None \<longleftrightarrow> c \<notin> set s"
  by (induction s) auto

lemma indexOf_first: "c \<notin> set l \<Longrightarrow> indexOf c (l @ c # r) = Some (length l)"
  by (induction l) auto

lemma indexOf_Some: "indexOf c s = Some i \<Longrightarrow> s = take i s @ c # drop (Suc i) s \<and> c \<notin> set (take i s)"
  by (induction s arbitrary: i) (auto split: if_splits)

lemma map_of_extend:
  "map_of (map (\<lambda>(b, ss). if b = k then (b, ss @ [s]) else (b, ss)) kb) b' =
     (if b' = k then map_option (\<lambda>ss. ss @ [s]) (map_of kb k) else map_of kb b')"
  by (induction kb) auto

lemma keys_extend:
  "map fst (map (\<lambda>(b, ss). if b = k then (b, ss @ [s]) else (b, ss)) kb) = map fst kb"
  by (induction kb) auto

lemma map_of_snoc:
  "map_of (kb @ [(b, v)]) b' =
     (case map_of kb b' of Some x \<Rightarrow> Some x | None \<Rightarrow> if b' = b then Some v else None)"
  by (induction kb) auto

lemma pushSentence_ok:
  assumes "b \<notin> set inheritedKeys"
  shows "\<exists>k'. pushSentence k b s = Inr k' \<and> sentencesOf k' b = sentencesOf k b @ [s] \<and>
           (\<forall>b'. b' \<noteq> b \<longrightarrow> sentencesOf k' b' = sentencesOf k b')"
  using assms
  by (cases "map_of k b") (auto simp: pushSentence_def sentencesOf_def map_of_extend map_of_snoc simp del: map_of_append split: option.splits)

lemma pushSentence_error: "pushSentence k b s = Inl e \<Longrightarrow> e = TypeError"
  by (auto simp: pushSentence_def split: option.splits if_splits)

lemma pushSentence_nonempty: "pushSentence k b s = Inr k' \<Longrightarrow> k' \<noteq> []"
  by (auto simp: pushSentence_def split: option.splits if_splits)

lemma parseLine_error: "parseLine acc l = Inl e \<Longrightarrow> e = TypeError"
  by (auto simp: parseLine_def Let_def pushSentence_error split: if_splits option.splits sum.splits)

lemma parseLines_error: "parseLines acc ls = Inl e \<Longrightarrow> e = TypeError"
  by (induction ls arbitrary: acc) (auto simp: parseLine_error split: sum.splits)

lemma parseLine_anchor:
  assumes "startsWith (js ''ANCHOR|'') line"
  shows "parseLine acc line =
     (if 4 \<le> length (splitOn 124 line) then
        Inr (acc\<lparr>anchors := anchors acc @
               [\<lparr>GrokAnchor.category = trim (splitOn 124 line ! 1), GrokAnchor.name = trim (splitOn 124 line ! 2),
                 GrokAnchor.summary = join [32] (map trim (drop 3 (splitOn 124 line)))\<rparr>]\<rparr>)
      else Inr acc)"
  using assms by (auto simp: parseLine_def Let_def drop_map)

lemma parseLine_no_colon:
  assumes "\<not> startsWith (js ''ANCHOR|'') line" "58 \<notin> set line"
  shows "parseLine acc line = Inr acc"
  using assms indexOf_None[of 58 line] by (simp add: parseLine_def)

lemma parseLine_colon:
  assumes "\<not> startsWith (js ''ANCHOR|'') (l @ 58 # r)" "58 \<notin> set l"
  shows "parseLine acc (l @ 58 # r) =
     (if toLowerCase (trim l) = [] \<or> trim r = [] then Inr acc
      else (case pushSentence (knowledge acc) (toLowerCase (trim l)) (trim r) of
              Inl e \<Rightarrow> Inl e
            | Inr k \<Rightarrow> Inr (acc\<lparr>knowledge := k\<rparr>)))"
  using assms indexOf_first[of 58 l r] by (simp add: parseLine_def Let_def)

text \<open>
  Claim C2, as the code has it. For a line of the reply (trimmed, not empty) and the
  synthesis built so far:
  \<^item> a line that starts with \<open>ANCHOR|\<close> and splits at the bars into at least four
    fields adds one anchor: its category is the second field, its name the third,
    its summary the remaining fields joined with single spaces, every field trimmed;
  \<^item> a line that starts with \<open>ANCHOR|\<close> and has fewer fields changes nothing;
  \<^item> any other line without a colon changes nothing;
  \<^item> any other line is cut at its first colon, and changes nothing when the trimmed left
    side or the trimmed right side is empty;
  \<^item> otherwise the trimmed right side is appended to the sentences under the key that
    is the trimmed left side in lower case, and no other key changes. (The keys
    \<open>constructor\<close> and \<open>__proto__\<close> are left out of this statement.)

  The reply of the scenario parses to the one anchor and the one sentence stated.
\<close>

theorem synthesis_parser_lines:
  "(startsWith (js ''ANCHOR|'') line \<and> 4 \<le> length (splitOn 124 line) \<longrightarrow>
      parseLine acc line =
        Inr (acc\<lparr>anchors := anchors acc @
               [\<lparr>GrokAnchor.category = trim (splitOn 124 line ! 1), GrokAnchor.name = trim (splitOn 124 line ! 2),
                 GrokAnchor.summary = join [32] (map trim (drop 3 (splitOn 124 line)))\<rparr>]\<rparr>)) \<and>
   (startsWith (js ''ANCHOR|'') line \<and> length (splitOn 124 line) < 4 \<longrightarrow>
      parseLine acc line = Inr acc) \<and>
   (\<not> startsWith (js ''ANCHOR|'') line \<and> 58 \<notin> set line \<longrightarrow> parseLine acc line = Inr acc) \<and>
   (\<not> startsWith (js ''ANCHOR|'') (l @ 58 # r) \<and> 58 \<notin> set l \<and>
      (toLowerCase (trim l) = [] \<or> trim r = []) \<longrightarrow>
      parseLine acc (l @ 58 # r) = Inr acc) \<and>
   (\<not> startsWith (js ''ANCHOR|'') (l @ 58 # r) \<and> 58 \<notin> set l \<and>
      toLowerCase (trim l) \<noteq> [] \<and> trim r \<noteq> [] \<and> toLowerCase (trim l) \<notin> set inheritedKeys \<longrightarrow>
      (\<exists>k. parseLine acc (l @ 58 # r) = Inr (acc\<lparr>knowledge := k\<rparr>) \<and>
           sentencesOf k (toLowerCase (trim l)) =
             sentencesOf (knowledge acc) (toLowerCase (trim l)) @ [trim r] \<and>
           (\<forall>b. b \<noteq> toLowerCase (trim l) \<longrightarrow> sentencesOf k b = sentencesOf (knowledge acc) b))) \<and>
   parseSynthesis
     (js ''ANCHOR|FOOD_AND_DRINK|Joe's Grill|Great patio.'' @ [10] @
      js ''FOOD_AND_DRINK: Locals love the patio.'') =
     Inr \<lparr>knowledge = [(js ''food_and_drink'', [js ''Locals love the patio.''])],
          anchors = [\<lparr>GrokAnchor.category = js ''FOOD_AND_DRINK'', GrokAnchor.name = js ''Joe's Grill'',
                      GrokAnchor.summary = js ''Great patio.''\<rparr>]\<rparr>"
proof (intro conjI impI)
  assume "startsWith (js ''ANCHOR|'') line \<and> 4 \<le> length (splitOn 124 line)"
  then show "parseLine acc line =
        Inr (acc\<lparr>anchors := anchors acc @
               [\<lparr>GrokAnchor.category = trim (splitOn 124 line ! 1), GrokAnchor.name = trim (splitOn 124 line ! 2),
                 GrokAnchor.summary = join [32] (map trim (drop 3 (splitOn 124 line)))\<rparr>]\<rparr>)"
    by (simp add: parseLine_anchor)
next
  assume "startsWith (js ''ANCHOR|'') line \<and> length (splitOn 124 line) < 4"
  then show "parseLine acc line = Inr acc" by (simp add: parseLine_anchor)
next
  assume "\<not> startsWith (js ''ANCHOR|'') line \<and> 58 \<notin> set line"
  then show "parseLine acc line = Inr acc" by (simp add: parseLine_no_colon)
next
  assume "\<not> startsWith (js ''ANCHOR|'') (l @ 58 # r) \<and> 58 \<notin> set l \<and>
      (toLowerCase (trim l) = [] \<or> trim r = [])"
  then show "parseLine acc (l @ 58 # r) = Inr acc" by (auto simp: parseLine_colon)
next
  assume a: "\<not> startsWith (js ''ANCHOR|'') (l @ 58 # r) \<and> 58 \<notin> set l \<and>
      toLowerCase (trim l) \<noteq> [] \<and> trim r \<noteq> [] \<and> toLowerCase (trim l) \<notin> set inheritedKeys"
  then obtain k where k: "pushSentence (knowledge acc) (toLowerCase (trim l)) (trim r) = Inr k"
    "sentencesOf k (toLowerCase (trim l)) =
       sentencesOf (knowledge acc) (toLowerCase (trim l)) @ [trim r]"
    "\<forall>b. b \<noteq> toLowerCase (trim l) \<longrightarrow> sentencesOf k b = sentencesOf (knowledge acc) b"
    using pushSentence_ok[of "toLowerCase (trim l)" "knowledge acc" "trim r"] by blast
  from a k(1) have "parseLine acc (l @ 58 # r) = Inr (acc\<lparr>knowledge := k\<rparr>)"
    by (simp add: parseLine_colon)
  with k(2,3) show "\<exists>k. parseLine acc (l @ 58 # r) = Inr (acc\<lparr>knowledge := k\<rparr>) \<and>
           sentencesOf k (toLowerCase (trim l)) =
             sentencesOf (knowledge acc) (toLowerCase (trim l)) @ [trim r] \<and>
           (\<forall>b. b \<noteq> toLowerCase (trim l) \<longrightarrow> sentencesOf k b = sentencesOf (knowledge acc) b)"
    by blast
next
  show "parseSynthesis
     (js ''ANCHOR|FOOD_AND_DRINK|Joe's Grill|Great patio.'' @ [10] @
      js ''FOOD_AND_DRINK: Locals love the patio.'') =
     Inr \<lparr>knowledge = [(js ''food_and_drink'', [js ''Locals love the patio.''])],
          anchors = [\<lparr>GrokAnchor.category = js ''FOOD_AND_DRINK'', GrokAnchor.name = js ''Joe's Grill'',
                      GrokAnchor.summary = js ''Great patio.''\<rparr>]\<rparr>"
    by (simp add: string_ops parser_ops)
qed

text \<open>
  Claim C2 as it is worded fails on two lines that contain a colon and are no anchor
  lines. The line \<open>KEY:\<close> is skipped: nothing is appended under \<open>key\<close>. The line
  \<open>A : b\<close> is filed under \<open>a\<close>, the trimmed left side, and not under the left side
  in lower case, which is \<open>a\<close> followed by a space.
\<close>

theorem synthesis_parser_counterexample:
  "\<not> startsWith (js ''ANCHOR|'') (js ''KEY:'') \<and> 58 \<in> set (js ''KEY:'') \<and>
   parseLine \<lparr>knowledge = [], anchors = []\<rparr> (js ''KEY:'') = Inr \<lparr>knowledge = [], anchors = []\<rparr> \<and>
   parseLine \<lparr>knowledge = [], anchors = []\<rparr> (js ''A : b'') =
     Inr \<lparr>knowledge = [(js ''a'', [js ''b''])], anchors = []\<rparr> \<and>
   toLowerCase (take 2 (js ''A : b'')) = js ''a ''"
  by (simp add: string_ops parser_ops)

text \<open>
  The statement of C2 at concrete lines: an anchor line with five fields, one with two
  fields, a line without colon, a line with nothing after its colon, and two lines
  that file a sentence under the same key.
\<close>

theorem synthesis_parser_lines_witness:
  "startsWith (js ''ANCHOR|'') (js ''ANCHOR| PARK |Lake|Nice|walks'') \<and>
   4 \<le> length (splitOn 124 (js ''ANCHOR| PARK |Lake|Nice|walks'')) \<and>
   parseLine \<lparr>knowledge = [], anchors = []\<rparr> (js ''ANCHOR| PARK |Lake|Nice|walks'') =
     Inr \<lparr>knowledge = [],
          anchors = [\<lparr>GrokAnchor.category = js ''PARK'', GrokAnchor.name = js ''Lake'',
                      GrokAnchor.summary = js ''Nice walks''\<rparr>]\<rparr> \<and>
   length (splitOn 124 (js ''ANCHOR|PARK'')) < 4 \<and>
   parseLine \<lparr>knowledge = [], anchors = []\<rparr> (js ''ANCHOR|PARK'') =
     Inr \<lparr>knowledge = [], anchors = []\<rparr> \<and>
   58 \<notin> set (js ''no colon here'') \<and>
   parseLine \<lparr>knowledge = [], anchors = []\<rparr> (js ''no colon here'') =
     Inr \<lparr>knowledge = [], anchors = []\<rparr> \<and>
   trim (js '' '') = [] \<and>
   parseLine \<lparr>knowledge = [], anchors = []\<rparr> (js ''KEY'' @ 58 # js '' '') =
     Inr \<lparr>knowledge = [], anchors = []\<rparr> \<and>
   toLowerCase (trim (js ''Food '')) \<notin> set inheritedKeys \<and>
   (\<exists>k. parseLine \<lparr>knowledge = [(js ''food'', [js ''One.''])], anchors = []\<rparr>
          (js ''Food '' @ 58 # js '' Two.'') =
          Inr \<lparr>knowledge = k, anchors = []\<rparr> \<and>
        sentencesOf k (js ''food'') = [js ''One.'', js ''Two.''])"
  using synthesis_parser_lines
          [of "js ''ANCHOR| PARK |Lake|Nice|walks''" "\<lparr>knowledge = [], anchors = []\<rparr>"
              "js ''KEY''" "js '' ''"]
        synthesis_parser_lines
          [of "js ''ANCHOR|PARK''" "\<lparr>knowledge = [], anchors = []\<rparr>" "js ''KEY''" "js '' ''"]
        synthesis_parser_lines
          [of "js ''no colon here''" "\<lparr>knowledge = [(js ''food'', [js ''One.''])], anchors = []\<rparr>"
              "js ''Food ''" "js '' Two.''"]
  by (simp add: string_ops parser_ops sentencesOf_def)

text \<open>
  The keys that the statement of C2 leaves out. A line that is no anchor line, has a
  colon and a sentence after it, and whose key is \<open>constructor\<close> or \<open>__proto__\<close> while
  the knowledge mapping has no such key of its own, ends the parse with a TypeError:
  \<open>knowledge[bucket]\<close> is then the inherited property, and it has no \<open>push\<close>.
\<close>

theorem inherited_key_throws:
  "(\<not> startsWith (js ''ANCHOR|'') (l @ 58 # r) \<and> 58 \<notin> set l \<and> trim r \<noteq> [] \<and>
    toLowerCase (trim l) \<in> set inheritedKeys \<and> map_of (knowledge acc) (toLowerCase (trim l)) = None \<longrightarrow>
      parseLine acc (l @ 58 # r) = Inl TypeError) \<and>
   parseSynthesis (js ''STATE_IDENTITY: Sunny.'' @ [10] @ js ''Constructor: Intel builds here.'') =
     Inl TypeError"
proof (intro conjI impI)
  assume a: "\<not> startsWith (js ''ANCHOR|'') (l @ 58 # r) \<and> 58 \<notin> set l \<and> trim r \<noteq> [] \<and>
    toLowerCase (trim l) \<in> set inheritedKeys \<and> map_of (knowledge acc) (toLowerCase (trim l)) = None"
  then have "toLowerCase (trim l) \<noteq> []" by (auto simp: inheritedKeys_def js_def)
  with a show "parseLine acc (l @ 58 # r) = Inl TypeError"
    by (simp add: parseLine_colon pushSentence_def)
next
  show "parseSynthesis (js ''STATE_IDENTITY: Sunny.'' @ [10] @ js ''Constructor: Intel builds here.'') =
     Inl TypeError"
    by (simp add: string_ops parser_ops)
qed

theorem inherited_key_throws_witness:
  "\<not> startsWith (js ''ANCHOR|'') (js ''__Proto__ '' @ 58 # js '' x'') \<and>
   toLowerCase (trim (js ''__Proto__ '')) \<in> set inheritedKeys \<and>
   parseLine \<lparr>knowledge = [], anchors = []\<rparr> (js ''__Proto__ '' @ 58 # js '' x'') = Inl TypeError"
  using inherited_key_throws[of "js ''__Proto__ ''" "js '' x''" "\<lparr>knowledge = [], anchors = []\<rparr>"]
  by (simp add: string_ops inheritedKeys_def)

lemma parseLines_skipped:
  "\<forall>line \<in> set ls. skipped line \<Longrightarrow> parseLines acc ls = Inr acc"
proof (induction ls)
  case Nil
  show ?case by simp
next
  case (Cons l ls)
  have "parseLine acc l = Inr acc"
  proof (cases "startsWith (js ''ANCHOR|'') l")
    case True
    with Cons.prems show ?thesis by (simp add: skipped_def parseLine_anchor)
  next
    case False
    with Cons.prems show ?thesis by (simp add: skipped_def parseLine_no_colon)
  qed
  with Cons show ?case by simp
qed

text \<open>
  Claim C6. \<open>callGrok\<close> fails with the empty-synthesis error exactly when the request
  was sent, the reply had a success status and a text content, and the parse of that
  text ended with no anchor and no knowledge key. For the parser alone: the error is
  the empty-synthesis error exactly when the loop over the lines ends with both
  empty; and a reply whose lines are all malformed (no colon, or an anchor line with
  fewer than four fields) gives this error.
\<close>

theorem empty_synthesis:
  "(parseSynthesis reply = Inl EmptySynthesis \<longleftrightarrow>
      parseLines \<lparr>knowledge = [], anchors = []\<rparr> (contentLines (extractContent reply)) =
        Inr \<lparr>knowledge = [], anchors = []\<rparr>) \<and>
   (list_all skipped (contentLines (extractContent reply)) \<longrightarrow>
      parseSynthesis reply = Inl EmptySynthesis) \<and>
   (callGrok w ctx = Inl EmptySynthesis \<longleftrightarrow>
      truthy (GROK_API_KEY w) \<and> truthy (grokApiUrl w) \<and> validUrl w (the (grokApiUrl w)) \<and>
      (\<exists>status body content.
         grok w ctx = Response status body \<and> ok status \<and> body_json body = GrokContent content \<and>
         parseLines \<lparr>knowledge = [], anchors = []\<rparr> (contentLines (extractContent content)) =
           Inr \<lparr>knowledge = [], anchors = []\<rparr>))"
proof -
  have iff: "parseSynthesis r = Inl EmptySynthesis \<longleftrightarrow>
      parseLines \<lparr>knowledge = [], anchors = []\<rparr> (contentLines (extractContent r)) =
        Inr \<lparr>knowledge = [], anchors = []\<rparr>" for r
    by (auto simp: parseSynthesis_def split: sum.splits dest: parseLines_error)
  have malformed: "parseSynthesis reply = Inl EmptySynthesis"
    if "list_all skipped (contentLines (extractContent reply))"
    using that parseLines_skipped[of "contentLines (extractContent reply)"]
    by (simp add: iff list_all_iff)
  have whole: "callGrok w ctx = Inl EmptySynthesis \<longleftrightarrow>
      truthy (GROK_API_KEY w) \<and> truthy (grokApiUrl w) \<and> validUrl w (the (grokApiUrl w)) \<and>
      (\<exists>status body content.
         grok w ctx = Response status body \<and> ok status \<and> body_json body = GrokContent content \<and>
         parseSynthesis content = Inl EmptySynthesis)"
    by (auto simp: callGrok_def split: fetched.splits grok_json.splits)
  show ?thesis using iff malformed whole by simp
qed

text \<open>
  The statement of C6 at a reply of three malformed lines, and at a model endpoint
  that answers with this reply.
\<close>

theorem empty_synthesis_witness:
  "list_all skipped
     (contentLines (extractContent (js ''Hello there'' @ [10] @ js ''ANCHOR|PARK|Lake'' @ [13, 10] @
                                    js ''nothing to parse''))) \<and>
   parseSynthesis (js ''Hello there'' @ [10] @ js ''ANCHOR|PARK|Lake'' @ [13, 10] @
                   js ''nothing to parse'') = Inl EmptySynthesis"
  using empty_synthesis
          [of "js ''Hello there'' @ [10] @ js ''ANCHOR|PARK|Lake'' @ [13, 10] @ js ''nothing to parse''"]
  by (simp add: string_ops parser_ops skipped_def)

section \<open>Properties of the Bounded Concurrency Runner\<close>

lemma spawn_eq:
  "cursor p + k \<le> n \<Longrightarrow>
   spawn n k p = p\<lparr>cursor := cursor p + k,
                    workers := workers p @ map Awaiting [cursor p ..< cursor p + k]\<rparr>"
proof (induction k arbitrary: p)
  case 0
  show ?case by simp
next
  case (Suc k)
  let ?q = "p\<lparr>cursor := cursor p + 1, workers := workers p @ [Awaiting (cursor p)]\<rparr>"
  have "spawn n (Suc k) p = spawn n k ?q"
    using Suc.prems by (simp add: iterate_def Let_def)
  also have "\<dots> = ?q\<lparr>cursor := cursor ?q + k,
                       workers := workers ?q @ map Awaiting [cursor ?q ..< cursor ?q + k]\<rparr>"
    using Suc.prems by (intro Suc.IH) simp
  also have "\<dots> = p\<lparr>cursor := cursor p + Suc k,
                      workers := workers p @ map Awaiting [cursor p ..< cursor p + Suc k]\<rparr>"
    by (simp add: upt_conv_Cons)
  finally show ?case .
qed

lemma start_eq:
  "start n L =
     \<lparr>cursor = min L n, results = replicate n None,
      workers = map Awaiting [0 ..< min L n], rejection = None\<rparr>"
  unfolding start_def by (subst spawn_eq) simp_all

lemma filter_update_count:
  "w < length xs \<Longrightarrow>
   length (filter P (xs[w := y])) + (if P (xs ! w) then 1 else 0) =
   length (filter P xs) + (if P y then 1 else 0)"
proof (induction xs arbitrary: w)
  case Nil
  then show ?case by simp
next
  case (Cons x xs)
  then show ?case by (cases w) auto
qed

lemma settle_workers_length: "length (workers (settle items mapper w p)) = length (workers p)"
  by (auto simp: settle_def iterate_def Let_def split: worker.splits sum.splits)

lemma step_decreases:
  assumes "step items mapper p p'"
  shows "remaining (length items) p' < remaining (length items) p"
  using assms
proof cases
  case (settles w)
  then obtain i where i: "workers p ! w = Awaiting i"
    by (cases "workers p ! w") (auto simp: isAwaiting_def)
  show ?thesis
  proof (cases "mapper (items ! i) i")
    case (Inl e)
    with settles i filter_update_count[of w "workers p" isAwaiting "Threw e"]
    show ?thesis
      by (simp add: settle_def remaining_def outstanding_def isAwaiting_def)
  next
    case (Inr v)
    show ?thesis
    proof (cases "cursor p < length items")
      case True
      with settles i Inr filter_update_count[of w "workers p" isAwaiting "Awaiting (cursor p)"]
      show ?thesis
        by (simp add: settle_def iterate_def remaining_def outstanding_def isAwaiting_def Let_def)
    next
      case False
      with settles i Inr filter_update_count[of w "workers p" isAwaiting Returned]
      show ?thesis
        by (simp add: settle_def iterate_def remaining_def outstanding_def isAwaiting_def Let_def)
    qed
  qed
qed

lemma runs_end: "wf {(p', p). step items mapper p p'}"
proof (rule wf_subset)
  show "wf (measure (remaining (length items)))" by simp
  show "{(p', p). step items mapper p p'} \<subseteq> measure (remaining (length items))"
    by (auto dest: step_decreases)
qed

lemma reachable_workers:
  "reachable items L mapper p \<Longrightarrow> length (workers p) = min L (length items)"
proof (induction rule: reachable.induct)
  case initial
  show ?case by (simp add: start_eq)
next
  case (later p p')
  then show ?case by (auto elim!: step.cases simp: settle_workers_length)
qed

lemma outstanding_bound:
  "reachable items L mapper p \<Longrightarrow> outstanding p \<le> min L (length items)"
  using reachable_workers[of items L mapper p] length_filter_le[of isAwaiting "workers p"]
  by (simp add: outstanding_def)

lemma firstAwaiting_Some:
  "firstAwaiting ws = Some w \<Longrightarrow> w < length ws \<and> isAwaiting (ws ! w)"
  by (induction ws arbitrary: w) (auto split: if_splits)

lemma firstAwaiting_None: "firstAwaiting ws = None \<longleftrightarrow> filter isAwaiting ws = []"
  by (induction ws) auto

lemma settleNext_settled: "settled p \<Longrightarrow> settleNext items mapper p = p"
  by (simp add: settled_def outstanding_def settleNext_def firstAwaiting_None[symmetric])

lemma settleNext_step:
  "\<not> settled p \<Longrightarrow> step items mapper p (settleNext items mapper p)"
proof -
  assume "\<not> settled p"
  then obtain w where w: "firstAwaiting (workers p) = Some w"
    using firstAwaiting_None[of "workers p"]
    by (cases "firstAwaiting (workers p)") (auto simp: settled_def outstanding_def)
  with firstAwaiting_Some[OF w] show ?thesis
    by (simp add: settleNext_def step.intros)
qed

lemma run_reachable:
  "reachable items L mapper ((settleNext items mapper ^^ k) (start (length items) L))"
proof (induction k)
  case 0
  show ?case by (simp add: reachable.initial)
next
  case (Suc k)
  let ?p = "(settleNext items mapper ^^ k) (start (length items) L)"
  show ?case
  proof (cases "settled ?p")
    case True
    with Suc show ?thesis by (simp add: settleNext_settled)
  next
    case False
    from reachable.later[OF Suc settleNext_step[OF False]] show ?thesis by simp
  qed
qed

lemma run_remaining:
  "settled ((settleNext items mapper ^^ k) p) \<or>
   remaining (length items) ((settleNext items mapper ^^ k) p) + k \<le> remaining (length items) p"
proof (induction k)
  case 0
  show ?case by simp
next
  case (Suc k)
  let ?q = "(settleNext items mapper ^^ k) p"
  show ?case
  proof (cases "settled ?q")
    case True
    then show ?thesis by (simp add: settleNext_settled)
  next
    case False
    with Suc have "remaining (length items) ?q + k \<le> remaining (length items) p" by simp
    moreover have "remaining (length items) (settleNext items mapper ?q) < remaining (length items) ?q"
      using step_decreases[OF settleNext_step[OF False]] .
    ultimately show ?thesis by simp
  qed
qed

lemma run_settles:
  "settled ((settleNext items mapper ^^ length items) (start (length items) L))"
proof -
  let ?q = "(settleNext items mapper ^^ length items) (start (length items) L)"
  have s: "remaining (length items) (start (length items) L) = length items"
    by (simp add: remaining_def outstanding_def start_eq isAwaiting_def filter_map o_def)
  have "settled ?q \<or> remaining (length items) ?q + length items \<le> length items"
    using run_remaining[where items = items and mapper = mapper and k = "length items"
      and p = "start (length items) L"] unfolding s .
  then have "settled ?q \<or> remaining (length items) ?q = 0" by auto
  then show ?thesis unfolding remaining_def settled_def by auto
qed


lemma pool_inv_start: "pool_inv n g (start n L)"
  by (auto simp: pool_inv_def start_eq)

lemma in_set_update:
  "w < length xs \<Longrightarrow>
   x \<in> set (xs[w := y]) \<longleftrightarrow> x = y \<or> (\<exists>k < length xs. k \<noteq> w \<and> xs ! k = x)"
  by (auto simp: in_set_conv_nth nth_list_update)

lemma pool_inv_step:
  assumes inv: "pool_inv (length items) g p"
    and good: "\<forall>i < length items. mapper (items ! i) i = Inr (g i)"
    and st: "step items mapper p p'"
  shows "pool_inv (length items) g p'"
  using st
proof cases
  case (settles w)
  let ?n = "length items"
  let ?ws = "workers p"
  from settles obtain i where i: "?ws ! w = Awaiting i"
    by (cases "?ws ! w") (auto simp: isAwaiting_def)
  have wf: "\<And>k. k < length ?ws \<Longrightarrow>
              (case ?ws ! k of Awaiting j \<Rightarrow> j < ?n \<and> j < cursor p
               | Returned \<Rightarrow> ?n \<le> cursor p | Threw e \<Rightarrow> False)"
    using inv unfolding pool_inv_def by blast
  from wf[OF settles(2)] i have ilt: "i < ?n" "i < cursor p" by simp_all
  from good ilt have m: "mapper (items ! i) i = Inr (g i)" by simp
  define wk :: "'b worker" where "wk = (if ?n \<le> cursor p then Returned else Awaiting (cursor p))"
  have p': "p' = p\<lparr>results := (results p)[i := Some (g i)], cursor := cursor p + 1,
                   workers := ?ws[w := wk]\<rparr>"
    using settles(1) i m by (simp add: settle_def iterate_def Let_def wk_def)
  have uniq: "\<And>k. k < length ?ws \<Longrightarrow> ?ws ! k = Awaiting i \<Longrightarrow> k = w"
    using inv settles(2) i by (auto simp: pool_inv_def)
  have older: "\<And>k j. k < length ?ws \<Longrightarrow> ?ws ! k = Awaiting j \<Longrightarrow> j < cursor p \<and> j < ?n"
    using wf by fastforce
  have mem: "\<And>j. Awaiting j \<in> set (?ws[w := wk]) \<longleftrightarrow>
                 wk = Awaiting j \<or> (\<exists>k < length ?ws. k \<noteq> w \<and> ?ws ! k = Awaiting j)"
    using settles(2) by (simp add: in_set_update eq_commute)
  have mem0: "\<And>j. Awaiting j \<in> set ?ws \<longleftrightarrow> (\<exists>k < length ?ws. ?ws ! k = Awaiting j)"
    by (auto simp: in_set_conv_nth)
  show ?thesis
    unfolding pool_inv_def
  proof (intro conjI allI impI)
    show "length (results p') = ?n" using inv by (simp add: p' pool_inv_def)
    show "rejection p' = None" using inv by (simp add: p' pool_inv_def)
  next
    fix k assume "k < length (workers p')"
    then have k: "k < length ?ws" by (simp add: p')
    show "case workers p' ! k of Awaiting j \<Rightarrow> j < ?n \<and> j < cursor p'
          | Returned \<Rightarrow> ?n \<le> cursor p' | Threw e \<Rightarrow> False"
    proof (cases "k = w")
      case True
      with k show ?thesis by (simp add: p' wk_def)
    next
      case False
      with wf[OF k] show ?thesis
        by (cases "?ws ! k") (simp_all add: p')
    qed
  next
    fix k k' j
    assume kk: "k < length (workers p')" "k' < length (workers p')"
      and e: "workers p' ! k = Awaiting j \<and> workers p' ! k' = Awaiting j"
    then have k: "k < length ?ws" "k' < length ?ws" by (simp_all add: p')
    have fresh: "\<And>x. x < length ?ws \<Longrightarrow> ?ws ! x \<noteq> Awaiting (cursor p)"
      using older by fastforce
    show "k = k'"
    proof (cases "k = w")
      case True
      show ?thesis
      proof (cases "k' = w")
        case True
        with \<open>k = w\<close> show ?thesis by simp
      next
        case False
        with True e k fresh[of k'] show ?thesis
          by (auto simp: p' wk_def split: if_splits)
      qed
    next
      case False
      show ?thesis
      proof (cases "k' = w")
        case True
        with False e k fresh[of k] show ?thesis
          by (auto simp: p' wk_def split: if_splits)
      next
        case False
        with \<open>k \<noteq> w\<close> e k inv show ?thesis by (auto simp: p' pool_inv_def)
      qed
    qed
  next
    fix j assume j: "j < ?n"
    have len: "length (results p) = ?n" using inv by (simp add: pool_inv_def)
    have old: "results p ! j = (if j < cursor p \<and> Awaiting j \<notin> set ?ws then Some (g j) else None)"
      using inv j by (simp add: pool_inv_def)
    show "results p' ! j =
          (if j < cursor p' \<and> Awaiting j \<notin> set (workers p') then Some (g j) else None)"
    proof (cases "j = i")
      case True
      have "Awaiting i \<notin> set (?ws[w := wk])"
        using uniq ilt unfolding mem by (auto simp: wk_def)
      with True ilt len show ?thesis by (simp add: p')
    next
      case False
      have r: "results p' ! j = results p ! j" using False by (simp add: p')
      show ?thesis
      proof (cases "j < cursor p")
        case True
        have "Awaiting j \<in> set (?ws[w := wk]) \<longleftrightarrow> Awaiting j \<in> set ?ws"
          using True False i unfolding mem mem0 by (auto simp: wk_def)
        with True old r show ?thesis by (simp add: p')
      next
        case F: False
        show ?thesis
        proof (cases "j = cursor p")
          case True
          with j have "wk = Awaiting j" by (simp add: wk_def)
          then have "Awaiting j \<in> set (?ws[w := wk])" unfolding mem by simp
          with F old r show ?thesis by (simp add: p')
        next
          case False
          with F old r show ?thesis by (simp add: p')
        qed
      qed
    qed
  qed
qed

lemma reachable_inv:
  assumes "\<forall>i < length items. mapper (items ! i) i = Inr (g i)"
    and "reachable items L mapper p"
  shows "pool_inv (length items) g p"
  using assms(2)
proof (induction rule: reachable.induct)
  case initial
  show ?case by (rule pool_inv_start)
next
  case (later p p')
  then show ?case
    using pool_inv_step[where items = items and mapper = mapper and g = g and p = p and p' = p']
      assms(1) by blast
qed

lemma settled_results:
  assumes good: "\<forall>i < length items. mapper (items ! i) i = Inr (g i)"
    and L: "1 \<le> L"
    and r: "reachable items L mapper p"
    and s: "settled p"
  shows "outcome p = Inr (map (\<lambda>i. Some (g i)) [0 ..< length items])"
proof -
  let ?n = "length items"
  have inv: "pool_inv ?n g p" using reachable_inv[OF good r] .
  have none: "\<And>j. Awaiting j \<notin> set (workers p)"
    using s by (auto simp: settled_def outstanding_def filter_empty_conv isAwaiting_def)
  have all: "\<forall>i < ?n. results p ! i = Some (g i)"
  proof (cases "?n = 0")
    case True
    then show ?thesis by simp
  next
    case False
    with L reachable_workers[OF r] have "0 < length (workers p)" by simp
    moreover have "workers p ! 0 = Returned"
    proof (cases "workers p ! 0")
      case (Awaiting j)
      with none[of j] \<open>0 < length (workers p)\<close> show ?thesis by (auto simp: in_set_conv_nth)
    next
      case Returned
      then show ?thesis .
    next
      case (Threw e)
      have "\<And>k. k < length (workers p) \<Longrightarrow>
              (case workers p ! k of Awaiting j \<Rightarrow> j < ?n \<and> j < cursor p
               | Returned \<Rightarrow> ?n \<le> cursor p | Threw e \<Rightarrow> False)"
        using inv unfolding pool_inv_def by blast
      from this[OF \<open>0 < length (workers p)\<close>] Threw show ?thesis by simp
    qed
    moreover have "\<And>k. k < length (workers p) \<Longrightarrow>
              (case workers p ! k of Awaiting j \<Rightarrow> j < ?n \<and> j < cursor p
               | Returned \<Rightarrow> ?n \<le> cursor p | Threw e \<Rightarrow> False)"
      using inv unfolding pool_inv_def by blast
    ultimately have "?n \<le> cursor p" by fastforce
    with inv none show ?thesis by (simp add: pool_inv_def)
  qed
  have "results p = map (\<lambda>i. Some (g i)) [0 ..< ?n]"
    using inv all by (intro nth_equalityI) (simp_all add: pool_inv_def)
  with inv show ?thesis by (simp add: outcome_def pool_inv_def)
qed

lemma mapWithConcurrency_good:
  assumes "\<forall>i < length items. mapper (items ! i) i = Inr (g i)" "1 \<le> L"
  shows "mapWithConcurrency items L mapper = Inr (map (\<lambda>i. Some (g i)) [0 ..< length items])"
proof (cases "items = []")
  case True
  then show ?thesis by (simp add: mapWithConcurrency_def)
next
  case False
  then show ?thesis
    using settled_results[OF assms
        run_reachable[where items = items and mapper = mapper and L = L and k = "length items"]
        run_settles[where items = items and mapper = mapper and L = L]]
    by (simp add: mapWithConcurrency_def)
qed

lemma mapWithConcurrency_pure:
  assumes "1 \<le> L"
  shows "mapWithConcurrency items L (\<lambda>x i. Inr (f x)) = Inr (map (\<lambda>x. Some (f x)) items)"
proof -
  have "mapWithConcurrency items L (\<lambda>x i. Inr (f x)) =
        Inr (map (\<lambda>i. Some (f (items ! i))) [0 ..< length items])"
    using assms by (intro mapWithConcurrency_good) simp_all
  also have "map (\<lambda>i. Some (f (items ! i))) [0 ..< length items] = map (\<lambda>x. Some (f x)) items"
    by (intro nth_equalityI) simp_all
  finally show ?thesis .
qed

lemma filled_map_Some: "filled (map (\<lambda>x. Some (f x)) xs) = Inr (map f xs)"
  by (induction xs) auto

text \<open>
  Claim C3. In every state that the pool can reach, at most \<open>min L N\<close> invocations
  of the mapper are outstanding. When \<open>L \<ge> 1\<close> and every promise of the mapper is
  fulfilled, every state in which no worker waits any more, whatever the order in
  which the promises settled, gives the list of the \<open>N\<close> values in the order of the
  items, and so does \<open>mapWithConcurrency\<close>. No run goes on for ever. For no items the
  result is the empty list, without any worker being started.
\<close>

theorem mapWithConcurrency_ordered:
  "(reachable items L mapper p \<longrightarrow> outstanding p \<le> min L (length items)) \<and>
   (1 \<le> L \<and> (\<forall>i < length items. mapper (items ! i) i = Inr (g i)) \<and>
      reachable items L mapper p \<and> settled p \<longrightarrow>
      outcome p = Inr (map (\<lambda>i. Some (g i)) [0 ..< length items])) \<and>
   (1 \<le> L \<and> (\<forall>i < length items. mapper (items ! i) i = Inr (g i)) \<longrightarrow>
      mapWithConcurrency items L mapper = Inr (map (\<lambda>i. Some (g i)) [0 ..< length items])) \<and>
   wf {(q', q). step items mapper q q'} \<and>
   mapWithConcurrency [] L mapper = Inr []"
  using outstanding_bound[of items L mapper p] settled_results[of items mapper g L p]
    mapWithConcurrency_good[of items mapper g L] runs_end[of items mapper]
  by (simp add: mapWithConcurrency_def)

lemmas pool_ops =
  start_eq settle_def iterate_def outstanding_def settled_def outcome_def isAwaiting_def Let_def
  upt_conv_Cons

text \<open>
  The statement of C3 for three items and limit 2, where the second worker's promises
  settle before the first worker's: the items are finished in the order 1, 2, 0.
\<close>

theorem mapWithConcurrency_ordered_witness:
  "outstanding (settle [10, 20, 30 :: nat] (\<lambda>x i. Inr (x + i) :: unit + nat) 1 (start 3 2)) \<le> min 2 3 \<and>
   settled (settle [10, 20, 30 :: nat] (\<lambda>x i. Inr (x + i) :: unit + nat) 0
             (settle [10, 20, 30] (\<lambda>x i. Inr (x + i)) 1
               (settle [10, 20, 30] (\<lambda>x i. Inr (x + i)) 1 (start 3 2)))) \<and>
   outcome (settle [10, 20, 30 :: nat] (\<lambda>x i. Inr (x + i) :: unit + nat) 0
             (settle [10, 20, 30] (\<lambda>x i. Inr (x + i)) 1
               (settle [10, 20, 30] (\<lambda>x i. Inr (x + i)) 1 (start 3 2)))) =
     Inr [Some 10, Some 21, Some 32] \<and>
   mapWithConcurrency [10, 20, 30 :: nat] 2 (\<lambda>x i. Inr (x + i) :: unit + nat) =
     Inr [Some 10, Some 21, Some 32]"
proof -
  let ?items = "[10, 20, 30 :: nat]"
  let ?m = "\<lambda>x i. Inr (x + i) :: unit + nat"
  let ?p0 = "start 3 2 :: (unit, nat) pool"
  let ?p1 = "settle ?items ?m 1 ?p0"
  let ?p2 = "settle ?items ?m 1 ?p1"
  let ?p3 = "settle ?items ?m 0 ?p2"
  have n: "length ?items = 3" by simp
  have r0: "reachable ?items 2 ?m ?p0"
    using reachable.initial[of ?items 2 ?m] unfolding n .
  have r1: "reachable ?items 2 ?m ?p1"
    by (rule reachable.later[OF r0], rule step.intros) (simp_all add: pool_ops)
  have r2: "reachable ?items 2 ?m ?p2"
    by (rule reachable.later[OF r1], rule step.intros) (simp_all add: pool_ops)
  have r3: "reachable ?items 2 ?m ?p3"
    by (rule reachable.later[OF r2], rule step.intros) (simp_all add: pool_ops)
  have s3: "settled ?p3" by (simp add: pool_ops)
  have good: "\<forall>i < length ?items. ?m (?items ! i) i = Inr (?items ! i + i)" by simp
  have list: "map (\<lambda>i. Some (?items ! i + i)) [0 ..< length ?items] = [Some 10, Some 21, Some 32]"
    by (simp add: upt_conv_Cons)
  from mapWithConcurrency_ordered[of ?items 2 ?m ?p1 "\<lambda>i. ?items ! i + i"]
       mapWithConcurrency_ordered[of ?items 2 ?m ?p3 "\<lambda>i. ?items ! i + i"]
       r1 r3 s3 good list
  show ?thesis by simp
qed

section \<open>Whitespace normalization and sentences\<close>

lemma collapse_Nil_iff: "collapse s = [] \<longleftrightarrow> s = []"
  by (cases s) auto

lemma hd_collapse: "s \<noteq> [] \<Longrightarrow> \<not> isSpace (hd s) \<Longrightarrow> hd (collapse s) = hd s"
  by (cases s) auto

lemma tidy_collapse: "tidy (collapse s)"
proof (induction s rule: collapse.induct)
  case 1
  show ?case by simp
next
  case (2 c cs)
  show ?case
  proof (cases "isSpace c")
    case True
    let ?t = "dropWhile isSpace cs"
    have "?t \<noteq> [] \<Longrightarrow> \<not> isSpace (hd (collapse ?t))"
      using hd_dropWhile[of isSpace cs] hd_collapse[of ?t] by simp
    with True 2 show ?thesis by (simp add: collapse_Nil_iff)
  next
    case False
    with 2 show ?thesis by simp
  qed
qed

lemma collapse_tidy: "tidy s \<Longrightarrow> collapse s = s"
proof (induction s rule: collapse.induct)
  case 1
  show ?case by simp
next
  case (2 c cs)
  show ?case
  proof (cases "isSpace c")
    case True
    with 2 have "dropWhile isSpace cs = cs" by (cases cs) auto
    with True 2 show ?thesis by simp
  next
    case False
    with 2 show ?thesis by simp
  qed
qed

lemma tidy_append:
  "tidy (xs @ ys) \<longleftrightarrow>
     tidy xs \<and> tidy ys \<and> (xs \<noteq> [] \<and> ys \<noteq> [] \<and> isSpace (last xs) \<longrightarrow> \<not> isSpace (hd ys))"
  by (induction xs) (auto simp: hd_append)

lemma trim_segment: "\<exists>a b. s = a @ trim s @ b"
proof -
  let ?u = "dropWhile isSpace s"
  have "s = takeWhile isSpace s @ ?u" by simp
  moreover have "?u = rev (dropWhile isSpace (rev ?u)) @ rev (takeWhile isSpace (rev ?u))"
    by (metis rev_append rev_rev_ident takeWhile_dropWhile_id)
  ultimately have "s = takeWhile isSpace s @ trim s @ rev (takeWhile isSpace (rev ?u))"
    by (simp add: trim_def)
  then show ?thesis by blast
qed

lemma tidy_trim: "tidy s \<Longrightarrow> tidy (trim s)"
proof -
  assume t: "tidy s"
  obtain a b where "s = a @ trim s @ b" using trim_segment by blast
  with t have "tidy (a @ trim s @ b)" by simp
  then show ?thesis by (simp add: tidy_append)
qed

lemma tidy_take: "tidy s \<Longrightarrow> tidy (take n s)"
  using tidy_append[of "take n s" "drop n s"] by simp

lemma last_dropWhile: "dropWhile P xs \<noteq> [] \<Longrightarrow> last (dropWhile P xs) = last xs"
  by (induction xs) (auto split: if_splits)

lemma trim_ends:
  assumes "trim s \<noteq> []"
  shows "\<not> isSpace (hd (trim s))" "\<not> isSpace (last (trim s))"
proof -
  let ?u = "dropWhile isSpace s"
  let ?v = "dropWhile isSpace (rev ?u)"
  from assms have v: "?v \<noteq> []" by (simp add: trim_def)
  have u: "?u \<noteq> []"
  proof
    assume e: "?u = []"
    have "?v = []" unfolding e by simp
    with v show False by (rule notE)
  qed
  have "last (trim s) = hd ?v" using v by (simp add: trim_def last_rev)
  with hd_dropWhile[OF v] show "\<not> isSpace (last (trim s))" by simp
  have "hd (trim s) = last ?v" using v by (simp add: trim_def hd_rev)
  also have "\<dots> = last (rev ?u)" using v by (rule last_dropWhile)
  also have "\<dots> = hd ?u" using u by (simp add: last_rev)
  finally show "\<not> isSpace (hd (trim s))" using hd_dropWhile[OF u] by simp
qed

lemma trim_id: "s = [] \<or> (\<not> isSpace (hd s) \<and> \<not> isSpace (last s)) \<Longrightarrow> trim s = s"
proof (cases "s = []")
  case True
  then show ?thesis by (simp add: trim_def)
next
  case False
  assume "s = [] \<or> (\<not> isSpace (hd s) \<and> \<not> isSpace (last s))"
  with False have e: "\<not> isSpace (hd s)" "\<not> isSpace (last s)" by simp_all
  have 1: "dropWhile isSpace s = s" using e(1) by (simp add: dropWhile_eq_self_iff)
  have 2: "dropWhile isSpace (rev s) = rev s"
    using e(2) False by (simp add: dropWhile_eq_self_iff hd_rev)
  show ?thesis by (simp add: trim_def 1 2)
qed

lemma length_trim: "length (trim s) \<le> length s"
proof -
  have "length (trim s) = length (dropWhile isSpace (rev (dropWhile isSpace s)))"
    by (simp add: trim_def)
  also have "\<dots> \<le> length (rev (dropWhile isSpace s))" by (rule length_dropWhile_le)
  also have "\<dots> \<le> length s" by (simp add: length_dropWhile_le)
  finally show ?thesis .
qed

lemma normalizeBlurb_fixed:
  "tidy s \<Longrightarrow> s = [] \<or> (\<not> isSpace (hd s) \<and> \<not> isSpace (last s)) \<Longrightarrow> normalizeBlurb s = s"
  by (simp add: normalizeBlurb_def collapse_tidy trim_id)

lemma normalizeBlurb_shape:
  "tidy (normalizeBlurb s)"
  "normalizeBlurb s \<noteq> [] \<Longrightarrow> \<not> isSpace (hd (normalizeBlurb s)) \<and> \<not> isSpace (last (normalizeBlurb s))"
  using trim_ends[of "collapse s"] by (simp_all add: normalizeBlurb_def tidy_trim tidy_collapse)

lemma not_space_marks: "\<not> isSpace ELLIPSIS" "\<not> isSpace 46"
  by (simp_all add: isSpace_def ELLIPSIS_def)

lemma ensureSentence_cases:
  "ensureSentence t = [] \<and> normalizeBlurb t = [] \<or>
   (\<exists>clipped. clipped \<noteq> [] \<and> tidy clipped \<and> \<not> isSpace (hd clipped) \<and> \<not> isSpace (last clipped) \<and>
      (if 220 < length (normalizeBlurb t) then length clipped \<le> 218
       else clipped = normalizeBlurb t) \<and>
      ensureSentence t = (if terminal (last clipped) then clipped else clipped @ [46]))"
proof (cases "normalizeBlurb t = []")
  case True
  then show ?thesis by (simp add: ensureSentence_def)
next
  case False
  let ?n = "normalizeBlurb t"
  show ?thesis
  proof (cases "220 < length ?n")
    case short: False
    with False normalizeBlurb_shape[of t] show ?thesis
      by (intro disjI2 exI[of _ ?n]) (simp add: ensureSentence_def)
  next
    case True
    let ?c = "trim (take 217 ?n) @ [ELLIPSIS]"
    have 1: "tidy ?c"
      using normalizeBlurb_shape(1)[of t] not_space_marks
      by (simp add: tidy_append tidy_trim tidy_take)
    have 2: "\<not> isSpace (hd ?c)"
      using trim_ends(1)[of "take 217 ?n"] not_space_marks by (simp add: hd_append)
    have 3: "length ?c \<le> 218" using length_trim[of "take 217 ?n"] by simp
    from False True 1 2 3 not_space_marks show ?thesis
      by (intro disjI2 exI[of _ ?c]) (simp add: ensureSentence_def)
  qed
qed

lemma ensureSentence_sentence:
  assumes "ensureSentence t \<noteq> []"
  shows "normalizeBlurb (ensureSentence t) = ensureSentence t"
    and "terminal (last (ensureSentence t))"
    and "length (ensureSentence t) \<le> 221"
    and "length (normalizeBlurb t) \<noteq> 220 \<or> terminal (last (normalizeBlurb t)) \<Longrightarrow>
         length (ensureSentence t) \<le> 220"
proof -
  from ensureSentence_cases[of t] assms obtain c where
    c: "c \<noteq> []" "tidy c" "\<not> isSpace (hd c)" "\<not> isSpace (last c)"
       "if 220 < length (normalizeBlurb t) then length c \<le> 218 else c = normalizeBlurb t"
       "ensureSentence t = (if terminal (last c) then c else c @ [46])"
    by auto
  show "normalizeBlurb (ensureSentence t) = ensureSentence t"
    using c not_space_marks by (intro normalizeBlurb_fixed) (auto simp: tidy_append)
  show "terminal (last (ensureSentence t))" using c by (simp add: terminal_def)
  show "length (ensureSentence t) \<le> 221" using c by (auto split: if_splits)
  show "length (ensureSentence t) \<le> 220"
    if "length (normalizeBlurb t) \<noteq> 220 \<or> terminal (last (normalizeBlurb t))"
    using c that by (auto split: if_splits)
qed

section \<open>Keeping the first of every key\<close>

lemma firstBy_keys: "f ` set (firstBy f seen xs) \<union> set seen = f ` set xs \<union> set seen"
proof (induction xs arbitrary: seen)
  case Nil
  show ?case by simp
next
  case (Cons x xs)
  show ?case
  proof (cases "f x \<in> set seen")
    case True
    with Cons[of seen] show ?thesis by auto
  next
    case False
    with Cons[of "f x # seen"] show ?thesis by auto
  qed
qed

lemma firstBy_subset: "set (firstBy f seen xs) \<subseteq> set xs"
  by (induction xs arbitrary: seen) auto

lemma firstBy_unseen: "x \<in> set (firstBy f seen xs) \<Longrightarrow> f x \<notin> set seen"
proof (induction xs arbitrary: seen)
  case Nil
  then show ?case by simp
next
  case (Cons a xs)
  show ?case
  proof (cases "f a \<in> set seen")
    case True
    with Cons show ?thesis by simp
  next
    case False
    with Cons.prems have "x = a \<or> x \<in> set (firstBy f (f a # seen) xs)" by simp
    then show ?thesis
    proof
      assume "x = a"
      with False show ?thesis by simp
    next
      assume "x \<in> set (firstBy f (f a # seen) xs)"
      from Cons.IH[OF this] show ?thesis by simp
    qed
  qed
qed

lemma firstBy_distinct: "distinct (map f (firstBy f seen xs))"
proof (induction xs arbitrary: seen)
  case Nil
  show ?case by simp
next
  case (Cons a xs)
  have "f a \<notin> f ` set (firstBy f (f a # seen) xs)"
  proof
    assume "f a \<in> f ` set (firstBy f (f a # seen) xs)"
    then obtain y where y: "y \<in> set (firstBy f (f a # seen) xs)" "f a = f y" by blast
    from firstBy_unseen[OF y(1)] y(2) show False by simp
  qed
  with Cons show ?case by simp
qed

lemma firstBy_cong: "set seen = set seen' \<Longrightarrow> firstBy f seen xs = firstBy f seen' xs"
proof (induction xs arbitrary: seen seen')
  case Nil
  show ?case by simp
next
  case (Cons a xs)
  have "firstBy f (f a # seen) xs = firstBy f (f a # seen') xs"
    using Cons.prems by (intro Cons.IH) simp
  moreover have "firstBy f seen xs = firstBy f seen' xs"
    using Cons.prems by (rule Cons.IH)
  ultimately show ?case using Cons.prems by simp
qed

lemma firstBy_append:
  "firstBy f seen (xs @ ys) = firstBy f seen xs @ firstBy f (map f xs @ seen) ys"
proof (induction xs arbitrary: seen)
  case Nil
  show ?case by simp
next
  case (Cons x xs)
  show ?case
  proof (cases "f x \<in> set seen")
    case True
    then have "set (map f xs @ seen) = set (map f (x # xs) @ seen)" by auto
    from firstBy_cong[OF this] True Cons show ?thesis by simp
  next
    case False
    have "set (map f xs @ f x # seen) = set (map f (x # xs) @ seen)" by auto
    from firstBy_cong[OF this] False Cons show ?thesis by simp
  qed
qed

lemma collectSnippets_eq:
  "length snippets < lim \<Longrightarrow>
   collectSnippets lim seen snippets cands =
     snippets @ take (lim - length snippets)
       (firstBy toLowerCase seen (filter (\<lambda>s. s \<noteq> []) (map ensureSentence cands)))"
proof (induction cands arbitrary: seen snippets)
  case Nil
  show ?case by simp
next
  case (Cons c cs)
  let ?s = "ensureSentence c"
  show ?case
  proof (cases "?s = [] \<or> toLowerCase ?s \<in> set seen")
    case True
    with Cons show ?thesis by (auto simp: Let_def)
  next
    case False
    show ?thesis
    proof (cases "lim \<le> Suc (length snippets)")
      case True
      with Cons.prems have "lim - length snippets = Suc 0" by simp
      with False True show ?thesis by (simp add: Let_def)
    next
      case F: False
      then have l: "length (snippets @ [?s]) < lim" by simp
      have d: "lim - length snippets = Suc (lim - length (snippets @ [?s]))" using F by simp
      show ?thesis using False F Cons.IH[OF l] by (simp add: Let_def d del: length_append)
    qed
  qed
qed

lemma collectSnippets_zero:
  "collectSnippets 0 seen [] cands = collectSnippets 1 seen [] cands"
  by (induction cands arbitrary: seen) (auto simp: Let_def)

lemma collectSnippets_start:
  "collectSnippets lim [] [] cands =
     take (max lim 1) (firstBy toLowerCase [] (filter (\<lambda>s. s \<noteq> []) (map ensureSentence cands)))"
proof (cases "lim = 0")
  case True
  then show ?thesis using collectSnippets_eq[of "[]" 1 "[]" cands] by (simp add: collectSnippets_zero)
next
  case False
  then have "max lim 1 = lim" by simp
  with False show ?thesis using collectSnippets_eq[of "[]" lim "[]" cands] by simp
qed

lemma pushSnippets_eq:
  "length b < cap \<Longrightarrow>
   pushSnippets cap b r = b @ take (cap - length b) (firstBy (\<lambda>s. s) b r)"
proof (induction r arbitrary: b)
  case Nil
  show ?case by simp
next
  case (Cons s r)
  show ?case
  proof (cases "s \<in> set b")
    case True
    with Cons show ?thesis by simp
  next
    case False
    show ?thesis
    proof (cases "cap \<le> Suc (length b)")
      case True
      with Cons.prems have "cap - length b = Suc 0" by simp
      with False True show ?thesis by simp
    next
      case F: False
      then have l: "length (b @ [s]) < cap" by simp
      have d: "cap - length b = Suc (cap - length (b @ [s]))" using F by simp
      have c: "firstBy (\<lambda>s. s) (b @ [s]) r = firstBy (\<lambda>s. s) (s # b) r"
        by (rule firstBy_cong) auto
      show ?thesis using False F Cons.IH[OF l] by (simp add: d c del: length_append)
    qed
  qed
qed

lemma mergeResponses_eq:
  "length b < cap \<Longrightarrow>
   mergeResponses cap b rs = b @ take (cap - length b) (firstBy (\<lambda>s. s) b (concat rs))"
proof (induction rs arbitrary: b)
  case Nil
  show ?case by simp
next
  case (Cons r rs)
  let ?F = "firstBy (\<lambda>s. s) b r"
  let ?b' = "pushSnippets cap b r"
  have b': "?b' = b @ take (cap - length b) ?F" using Cons.prems by (rule pushSnippets_eq)
  show ?case
  proof (cases "cap \<le> length ?b'")
    case True
    then have "cap - length b \<le> length ?F" using b' Cons.prems by (simp add: min_def split: if_splits)
    with True show ?thesis by (simp add: Let_def b' firstBy_append)
  next
    case False
    then have short: "length ?F < cap - length b" using b' by (simp add: min_def split: if_splits)
    then have eq: "?b' = b @ ?F" using b' by simp
    have l: "length ?b' < cap" using False by simp
    have "set (b @ ?F) = set (r @ b)" using firstBy_keys[of "\<lambda>s. s" b r] by auto
    then have c: "firstBy (\<lambda>s. s) (b @ ?F) (concat rs) = firstBy (\<lambda>s. s) (r @ b) (concat rs)"
      by (rule firstBy_cong)
    have "mergeResponses cap b (r # rs) = mergeResponses cap ?b' rs"
      using False by (simp add: Let_def)
    also have "\<dots> = ?b' @ take (cap - length ?b') (firstBy (\<lambda>s. s) ?b' (concat rs))"
      using l by (rule Cons.IH)
    also have "\<dots> = b @ take (cap - length b) (firstBy (\<lambda>s. s) b (concat (r # rs)))"
      using short by (simp add: eq c firstBy_append)
    finally show ?thesis .
  qed
qed

lemma addPlaces_eq:
  "addPlaces seen merged ps =
     (rev (map (\<lambda>p. toLowerCase (name p)) (firstBy (\<lambda>p. toLowerCase (name p)) seen ps)) @ seen,
      merged @ firstBy (\<lambda>p. toLowerCase (name p)) seen ps)"
  by (induction ps arbitrary: seen merged) auto

lemma mergePlaces_eq:
  "mergePlaces seen merged pls = merged @ firstBy (\<lambda>p. toLowerCase (name p)) seen (concat pls)"
proof (induction pls arbitrary: seen merged)
  case Nil
  show ?case by simp
next
  case (Cons ps pls)
  let ?k = "\<lambda>p. toLowerCase (name p)"
  have "set (rev (map ?k (firstBy ?k seen ps)) @ seen) = set (map ?k ps @ seen)"
    using firstBy_keys[of ?k seen ps] by auto
  then have "firstBy ?k (rev (map ?k (firstBy ?k seen ps)) @ seen) (concat pls) =
             firstBy ?k (map ?k ps @ seen) (concat pls)"
    by (rule firstBy_cong)
  then show ?case by (simp add: addPlaces_eq Cons firstBy_append)
qed

lemma placesOf_names:
  "map name (placesOf dist label items) =
     map (\<lambda>item. hd (splitOn 44 (the (display_name item))))
       (filter (\<lambda>item. truthy (display_name item)) items)"
  by (induction items) auto

section \<open>Properties of the Snippet Source\<close>

lemma tidy_no_space: "\<forall>c \<in> set s. \<not> isSpace c \<Longrightarrow> tidy s"
  by (induction s) auto

lemma ensureSentence_long:
  assumes "220 < length (normalizeBlurb t)"
  shows "ensureSentence t = trim (take 217 (normalizeBlurb t)) @ [ELLIPSIS, 46]"
  using assms by (auto simp: ensureSentence_def terminal_def ELLIPSIS_def Let_def)

lemma ensureSentence_letters:
  "ensureSentence (replicate 220 97) = replicate 220 97 @ [46]"
proof -
  have ns: "\<not> isSpace 97" by (simp add: isSpace_def)
  have "normalizeBlurb (replicate 220 97) = replicate 220 97"
    using ns by (intro normalizeBlurb_fixed tidy_no_space) simp_all
  then show ?thesis by (simp add: ensureSentence_def terminal_def)
qed

lemma query_cases:
  "queryDuckDuckGoSnippets ddg q lim = [] \<or>
   (\<exists>status data. ddg q = Response status (BodyJson data) \<and> ok status \<and>
      queryDuckDuckGoSnippets ddg q lim =
        take (max lim 1)
          (firstBy toLowerCase [] (filter (\<lambda>s. s \<noteq> []) (map ensureSentence (candidatesOf data)))))"
  by (auto simp: queryDuckDuckGoSnippets_def snippetsOrThrow_def collectSnippets_start
           split: fetched.splits ddg_body.splits)

lemma take_firstBy_distinct: "distinct (map f (take n (firstBy f seen xs)))"
  using firstBy_distinct[of f seen xs] by (simp add: take_map[symmetric] distinct_take)

lemma query_sentences:
  assumes "s \<in> set (queryDuckDuckGoSnippets ddg q lim)"
  shows "s \<noteq> []" "normalizeBlurb s = s" "terminal (last s)" "length s \<le> 221"
proof -
  from query_cases[of ddg q lim] assms obtain data where
    "s \<in> set (take (max lim 1)
       (firstBy toLowerCase [] (filter (\<lambda>s. s \<noteq> []) (map ensureSentence (candidatesOf data)))))"
    by auto
  then have "s \<in> set (firstBy toLowerCase []
       (filter (\<lambda>s. s \<noteq> []) (map ensureSentence (candidatesOf data))))"
    by (rule in_set_takeD)
  with firstBy_subset[of toLowerCase "[]"]
  have "s \<in> set (filter (\<lambda>s. s \<noteq> []) (map ensureSentence (candidatesOf data)))"
    by blast
  then obtain c where c: "s = ensureSentence c" "ensureSentence c \<noteq> []" by auto
  from ensureSentence_sentence(1-3)[OF c(2)] c
  show "s \<noteq> []" "normalizeBlurb s = s" "terminal (last s)" "length s \<le> 221" by simp_all
qed


text \<open>
  Claim C7 at a response whose heading is 220 letters \<open>a\<close>: the candidate is
  already normalized and not longer than 220 units, so it is not clipped, and the
  full stop that it lacks is appended. The returned sentence has 221 units.
\<close>

theorem snippet_of_220_units:
  "queryDuckDuckGoSnippets
     (\<lambda>query. Response 200
        (BodyJson \<lparr>Heading = Some (replicate 220 97), AbstractText = None, Abstract = None,
                   Answer = None, Infobox = None, RelatedTopics = None\<rparr>))
     (js ''parks'') 3 = [replicate 220 97 @ [46]] \<and>
   length (replicate 220 97 @ [46 :: nat]) = 221"
proof -
  define x :: jstr where "x = replicate 220 97"
  have e: "ensureSentence x = x @ [46]" unfolding x_def by (rule ensureSentence_letters)
  have n: "x \<noteq> []" by (simp add: x_def)
  have "queryDuckDuckGoSnippets
     (\<lambda>query. Response 200
        (BodyJson \<lparr>Heading = Some x, AbstractText = None, Abstract = None,
                   Answer = None, Infobox = None, RelatedTopics = None\<rparr>))
     (js ''parks'') 3 = [x @ [46]]"
    using n
    by (simp add: queryDuckDuckGoSnippets_def snippetsOrThrow_def ok_def candidatesOf_def
          truthy_def extractRelatedTopics_def e Let_def)
  moreover have "length (x @ [46]) = 221" by (simp add: x_def)
  ultimately show ?thesis unfolding x_def by simp
qed

text \<open>
  What holds of the Snippet Source. For a limit of at least one the result has at
  most that many sentences. No two sentences are equal in lower case. Every sentence
  is not empty, is its own whitespace normalization, ends with a full stop, an
  exclamation mark or a question mark, and has at most 221 units. On a response
  object the result is the first \<open>limit\<close> sentences, in the order of the candidates,
  of the non-empty sentences made from them, each lower-case text kept once. A
  candidate longer than 220 units after normalization becomes its first 217 units,
  trimmed, followed by the ellipsis and a full stop, at most 219 units; one shorter
  than 220 units gives at most 220 units.
\<close>

theorem snippet_sentences:
  "(1 \<le> lim \<longrightarrow> length (queryDuckDuckGoSnippets ddg q lim) \<le> lim) \<and>
   distinct (map toLowerCase (queryDuckDuckGoSnippets ddg q lim)) \<and>
   (\<forall>s \<in> set (queryDuckDuckGoSnippets ddg q lim).
      s \<noteq> [] \<and> normalizeBlurb s = s \<and> terminal (last s) \<and> length s \<le> 221) \<and>
   (ddg q = Response status (BodyJson data) \<and> ok status \<and> 1 \<le> lim \<longrightarrow>
      queryDuckDuckGoSnippets ddg q lim =
        take lim (firstBy toLowerCase []
          (filter (\<lambda>s. s \<noteq> []) (map ensureSentence (candidatesOf data))))) \<and>
   (220 < length (normalizeBlurb t) \<longrightarrow>
      ensureSentence t = trim (take 217 (normalizeBlurb t)) @ [ELLIPSIS, 46] \<and>
      length (ensureSentence t) \<le> 219) \<and>
   (length (normalizeBlurb t) < 220 \<longrightarrow> length (ensureSentence t) \<le> 220)"
proof (intro conjI impI ballI)
  assume "1 \<le> lim"
  then have "max lim 1 = lim" by simp
  with query_cases[of ddg q lim] show "length (queryDuckDuckGoSnippets ddg q lim) \<le> lim"
    by auto
next
  show "distinct (map toLowerCase (queryDuckDuckGoSnippets ddg q lim))"
    using query_cases[of ddg q lim] take_firstBy_distinct[of toLowerCase] by auto
next
  fix s assume "s \<in> set (queryDuckDuckGoSnippets ddg q lim)"
  from query_sentences[OF this]
  show "s \<noteq> []" "normalizeBlurb s = s" "terminal (last s)" "length s \<le> 221" .
next
  assume a: "ddg q = Response status (BodyJson data) \<and> ok status \<and> 1 \<le> lim"
  then have "max lim 1 = lim" by simp
  with a show "queryDuckDuckGoSnippets ddg q lim =
        take lim (firstBy toLowerCase []
          (filter (\<lambda>s. s \<noteq> []) (map ensureSentence (candidatesOf data))))"
    by (simp add: queryDuckDuckGoSnippets_def snippetsOrThrow_def collectSnippets_start)
next
  assume l: "220 < length (normalizeBlurb t)"
  show "ensureSentence t = trim (take 217 (normalizeBlurb t)) @ [ELLIPSIS, 46]"
    using l by (rule ensureSentence_long)
  show "length (ensureSentence t) \<le> 219"
    using length_trim[of "take 217 (normalizeBlurb t)"] by (simp add: ensureSentence_long[OF l])
next
  assume "length (normalizeBlurb t) < 220"
  then show "length (ensureSentence t) \<le> 220"
    by (auto simp: ensureSentence_def Let_def)
qed

section \<open>Properties of the Strategic Context Aggregator\<close>

lemma assignBuckets_other:
  "k \<notin> fst ` set es \<Longrightarrow> bucketOf (assignBuckets es b) k = bucketOf b k"
  by (induction es arbitrary: b) auto

lemma assignBuckets_snapshot: "city_snapshot (assignBuckets es b) = city_snapshot b"
  by (induction es arbitrary: b) auto

lemma assignBuckets_lookup:
  "distinct (map fst es) \<Longrightarrow> (k, v) \<in> set es \<Longrightarrow> bucketOf (assignBuckets es b) k = v"
proof (induction es arbitrary: b)
  case Nil
  then show ?case by simp
next
  case (Cons e es)
  obtain k' v' where e: "e = (k', v')" by (cases e)
  show ?case
  proof (cases "(k, v) = e")
    case True
    with Cons.prems e have "k \<notin> fst ` set es" by auto
    with True e show ?thesis by (simp add: assignBuckets_other)
  next
    case False
    with Cons e show ?thesis by auto
  qed
qed

lemma keys_distinct: "distinct (map key STRATEGIC_QUERIES)"
  by (simp add: STRATEGIC_QUERIES_def)

lemma keys_all: "set (map key STRATEGIC_QUERIES) = UNIV"
proof -
  have "k \<in> set (map key STRATEGIC_QUERIES)" for k
    by (cases k) (simp_all add: STRATEGIC_QUERIES_def)
  then show ?thesis by blast
qed

lemma caps: "\<forall>config \<in> set STRATEGIC_QUERIES. limit config = Some 2 \<or> limit config = Some 3"
  by (simp add: STRATEGIC_QUERIES_def)

lemma fetchStrategicContext_eq:
  "fetchStrategicContext ddg c s z =
     Inr (if s = [] then emptyStrategicBuckets
          else (let buckets =
                      assignBuckets
                        (map (fillBucket ddg (replacementCity c s) s z) STRATEGIC_QUERIES)
                        emptyStrategicBuckets
                in buckets\<lparr>city_snapshot := snapshotOf (bucketOf buckets)\<rparr>))"
proof (cases "s = []")
  case True
  then show ?thesis by (simp add: fetchStrategicContext_def)
next
  case False
  have "mapWithConcurrency STRATEGIC_QUERIES 4
          (\<lambda>config index.
             Inr (fillBucket ddg (replacementCity c s) s z config)
               :: error + ContextBucketKey \<times> jstr list) =
        Inr (map (\<lambda>config. Some (fillBucket ddg (replacementCity c s) s z config))
               STRATEGIC_QUERIES)"
    by (rule mapWithConcurrency_pure) simp
  with False show ?thesis
    by (simp add: fetchStrategicContext_def filled_map_Some Let_def)
qed

lemma fst_fillBucket: "fst (fillBucket ddg c s z config) = key config"
  by (simp add: fillBucket_def Let_def)

lemma bucket_of_config:
  assumes "config \<in> set STRATEGIC_QUERIES" "s \<noteq> []"
  shows "bucketOf (caught emptyStrategicBuckets (fetchStrategicContext ddg c s z)) (key config) =
         snd (fillBucket ddg (replacementCity c s) s z config)"
proof -
  let ?f = "fillBucket ddg (replacementCity c s) s z"
  have m: "map fst (map ?f STRATEGIC_QUERIES) = map key STRATEGIC_QUERIES"
    by (simp add: fst_fillBucket o_def)
  have d: "distinct (map fst (map ?f STRATEGIC_QUERIES))"
    unfolding m by (rule keys_distinct)
  have "(key config, snd (?f config)) \<in> set (map ?f STRATEGIC_QUERIES)"
    using assms(1) fst_fillBucket[of ddg "replacementCity c s" s z config]
    by (metis image_eqI list.set_map prod.collapse)
  from assignBuckets_lookup[OF d this] assms(2) show ?thesis
    by (simp add: fetchStrategicContext_eq Let_def caught_def)
qed

lemma snd_fillBucket:
  assumes "1 \<le> capOf config"
  shows "snd (fillBucket ddg c s z config) =
     take (capOf config)
       (firstBy (\<lambda>x. x) []
          (concat (map (\<lambda>query. queryDuckDuckGoSnippets ddg query (capOf config))
                     (bucketQueries c s z (templates config)))))"
  using assms mergeResponses_eq[of "[]" "capOf config"]
  by (simp add: fillBucket_def Let_def capOf_def)

lemma first_config:
  "\<lparr>key = state_identity,
    templates =
      [js ''How do residents describe the character of {state}? Mention pride points or what makes living there special.'',
       js ''Signature cultural traits or statewide identity markers people associate with {state}.'',
       js ''What do long-time residents love telling newcomers about {state}?''],
    limit = Some 2\<rparr> \<in> set STRATEGIC_QUERIES"
  by (simp add: STRATEGIC_QUERIES_def)

lemma first_queries:
  "map (take 3)
     (bucketQueries (js ''Phoenix'') (js ''AZ'') (js ''85001'')
        [js ''How do residents describe the character of {state}? Mention pride points or what makes living there special.'',
         js ''Signature cultural traits or statewide identity markers people associate with {state}.'',
         js ''What do long-time residents love telling newcomers about {state}?'']) =
   [js ''How'', js ''Sig'', js ''Wha'']"
  by (simp add: bucketQueries_def replaceFirst_def string_ops)

lemmas snippet_ops =
  queryDuckDuckGoSnippets_def snippetsOrThrow_def ok_def candidatesOf_def truthy_def
  extractRelatedTopics_def ensureSentence_def normalizeBlurb_def terminal_def ELLIPSIS_def

lemma two_spellings_bucket:
  "snd (fillBucket twoSpellings (js ''Phoenix'') (js ''AZ'') (js ''85001'')
     \<lparr>key = state_identity,
      templates =
        [js ''How do residents describe the character of {state}? Mention pride points or what makes living there special.'',
         js ''Signature cultural traits or statewide identity markers people associate with {state}.'',
         js ''What do long-time residents love telling newcomers about {state}?''],
      limit = Some 2\<rparr>) = [js ''Phoenix.'', js ''PHOENIX.'']"
  by (simp add: fillBucket_def bucketQueries_def replaceFirst_def twoSpellings_def
        snippet_ops string_ops)

text \<open>
  Claim C1 at the endpoint \<open>twoSpellings\<close>, for Phoenix, AZ, 85001: the bucket
  \<open>state_identity\<close> holds the sentence of the first response and the sentence of the
  second, which differ only in case. The merge compares sentences as they are.
\<close>

theorem bucket_case_variants:
  "bucketOf (caught emptyStrategicBuckets
       (fetchStrategicContext twoSpellings (js ''Phoenix'') (js ''AZ'') (js ''85001'')))
     state_identity = [js ''Phoenix.'', js ''PHOENIX.''] \<and>
   toLowerCase (js ''Phoenix.'') = toLowerCase (js ''PHOENIX.'')"
proof -
  have "js ''AZ'' \<noteq> []" by (simp add: js_def)
  note b = bucket_of_config[OF first_config this, of twoSpellings "js ''Phoenix''" "js ''85001''"]
  have rc: "replacementCity (js ''Phoenix'') (js ''AZ'') = js ''Phoenix''"
    by (simp add: replacementCity_def js_def)
  have "bucketOf (caught emptyStrategicBuckets
       (fetchStrategicContext twoSpellings (js ''Phoenix'') (js ''AZ'') (js ''85001'')))
     state_identity = [js ''Phoenix.'', js ''PHOENIX.'']"
    using b unfolding rc two_spellings_bucket by simp
  moreover have "toLowerCase (js ''Phoenix.'') = toLowerCase (js ''PHOENIX.'')"
    by (simp add: string_ops)
  ultimately show ?thesis by simp
qed

text \<open>
  What holds of the Strategic Context Aggregator. It always returns buckets. The table
  has eighteen entries, one for every key. For every entry the cap is 2 or 3, and the
  bucket of its key has at most that many sentences, no sentence twice, and is empty
  when the state is empty; otherwise it is the first \<open>cap\<close> sentences of the
  responses to the entry's queries, in the order of the templates and then of each
  response, every sentence kept once.
\<close>

theorem strategic_buckets:
  "(\<exists>b. fetchStrategicContext ddg c s z = Inr b) \<and>
   (\<forall>config \<in> set STRATEGIC_QUERIES.
      (capOf config = 2 \<or> capOf config = 3) \<and>
      length (bucketOf (caught emptyStrategicBuckets (fetchStrategicContext ddg c s z))
                (key config)) \<le> capOf config \<and>
      distinct (bucketOf (caught emptyStrategicBuckets (fetchStrategicContext ddg c s z))
                  (key config)) \<and>
      bucketOf (caught emptyStrategicBuckets (fetchStrategicContext ddg c s z)) (key config) =
        (if s = [] then []
         else take (capOf config)
                (firstBy (\<lambda>x. x) []
                   (concat (map (\<lambda>query. queryDuckDuckGoSnippets ddg query (capOf config))
                              (bucketQueries (replacementCity c s) s z (templates config))))))) \<and>
   set (map key STRATEGIC_QUERIES) = UNIV \<and>
   distinct (map key STRATEGIC_QUERIES) \<and>
   length STRATEGIC_QUERIES = 18"
proof (intro conjI ballI)
  show "\<exists>b. fetchStrategicContext ddg c s z = Inr b" by (simp add: fetchStrategicContext_eq)
  show "set (map key STRATEGIC_QUERIES) = UNIV" by (rule keys_all)
  show "distinct (map key STRATEGIC_QUERIES)" by (rule keys_distinct)
  show "length STRATEGIC_QUERIES = 18" by (simp add: STRATEGIC_QUERIES_def)
next
  fix config assume cfg: "config \<in> set STRATEGIC_QUERIES"
  let ?b = "bucketOf (caught emptyStrategicBuckets (fetchStrategicContext ddg c s z)) (key config)"
  let ?r = "take (capOf config)
                (firstBy (\<lambda>x. x) []
                   (concat (map (\<lambda>query. queryDuckDuckGoSnippets ddg query (capOf config))
                              (bucketQueries (replacementCity c s) s z (templates config)))))"
  from caps cfg show cap: "capOf config = 2 \<or> capOf config = 3"
    by (auto simp: capOf_def)
  have eq: "?b = (if s = [] then [] else ?r)"
  proof (cases "s = []")
    case True
    then show ?thesis
      by (simp add: fetchStrategicContext_eq caught_def emptyStrategicBuckets_def)
  next
    case False
    have "1 \<le> capOf config" using cap by auto
    from bucket_of_config[OF cfg False, of ddg c z] snd_fillBucket[OF this] False
    show ?thesis by simp
  qed
  then show "?b = (if s = [] then [] else ?r)" .
  show "length ?b \<le> capOf config" by (simp add: eq)
  show "distinct ?b"
    using take_firstBy_distinct[of "\<lambda>x. x" "capOf config" "[]"
        "concat (map (\<lambda>query. queryDuckDuckGoSnippets ddg query (capOf config))
                   (bucketQueries (replacementCity c s) s z (templates config)))"]
    by (simp add: eq)
qed

text \<open>
  The statement at the first entry of the table and the endpoint \<open>twoSpellings\<close>.
\<close>

theorem strategic_buckets_witness:
  "(capOf \<lparr>key = state_identity,
      templates =
        [js ''How do residents describe the character of {state}? Mention pride points or what makes living there special.'',
         js ''Signature cultural traits or statewide identity markers people associate with {state}.'',
         js ''What do long-time residents love telling newcomers about {state}?''],
      limit = Some 2\<rparr> = 2) \<and>
   length (bucketOf (caught emptyStrategicBuckets
       (fetchStrategicContext twoSpellings (js ''Phoenix'') (js ''AZ'') (js ''85001'')))
     state_identity) \<le> 2 \<and>
   distinct (bucketOf (caught emptyStrategicBuckets
       (fetchStrategicContext twoSpellings (js ''Phoenix'') (js ''AZ'') (js ''85001'')))
     state_identity)"
proof -
  note t = strategic_buckets[of twoSpellings "js ''Phoenix''" "js ''AZ''" "js ''85001''",
             THEN conjunct2, THEN conjunct1, THEN bspec, OF first_config]
  from t[THEN conjunct2, THEN conjunct1] t[THEN conjunct2, THEN conjunct2, THEN conjunct1]
  show ?thesis by (simp add: capOf_def)
qed


section \<open>Properties of the Place Source\<close>

lemma fetchLocalPlaces_eq:
  "fetchLocalPlaces osm dist la lo lim =
     Inr (case (la, lo) of
            (Some a, Some b) \<Rightarrow>
              firstBy (\<lambda>p. toLowerCase (name p)) []
                (concat (map (categoryPlaces osm dist a b lim) placeQueries))
          | _ \<Rightarrow> [])"
proof (cases la)
  case None
  then show ?thesis by (simp add: fetchLocalPlaces_def)
next
  case a: (Some a)
  show ?thesis
  proof (cases lo)
    case None
    with a show ?thesis by (simp add: fetchLocalPlaces_def)
  next
    case (Some b)
    have "mapWithConcurrency placeQueries 3
            (\<lambda>q index. Inr (categoryPlaces osm dist a b lim q) :: error + 'a LocalPlace list) =
          Inr (map (\<lambda>q. Some (categoryPlaces osm dist a b lim q)) placeQueries)"
      by (rule mapWithConcurrency_pure) simp
    with a Some show ?thesis
      by (simp add: fetchLocalPlaces_def filled_map_Some mergePlaces_eq)
  qed
qed

lemma placeFailure_empty:
  "placeFailure (osm (fst q) a b lim) \<Longrightarrow> categoryPlaces osm dist a b lim q = []"
  by (auto simp: placeFailure_def categoryPlaces_def placesOrThrow_def
           split: fetched.splits osm_body.splits)

lemma snippetFailure_empty:
  "snippetFailure (ddg q) \<Longrightarrow> queryDuckDuckGoSnippets ddg q lim = []"
  by (auto simp: snippetFailure_def queryDuckDuckGoSnippets_def snippetsOrThrow_def
           split: fetched.splits ddg_body.splits)


text \<open>
  Claim C9. The Place Source returns the places of the ten category queries, in the
  order of the queries and of each response, keeping of every lower-cased name the
  first place only, and the empty list without coordinates; so no two returned places
  have the same lower-cased name. A category contributes the places of its response,
  or none when its query fails. The places of a response are made from the records
  whose display name is a non-empty string, in order, each named by the part of the
  display name before its first comma; the other records are skipped.
\<close>

theorem place_merge:
  "fetchLocalPlaces osm dist la lo lim =
     Inr (case (la, lo) of
            (Some a, Some b) \<Rightarrow>
              firstBy (\<lambda>p. toLowerCase (name p)) []
                (concat (map (categoryPlaces osm dist a b lim) placeQueries))
          | _ \<Rightarrow> []) \<and>
   distinct (map (\<lambda>p. toLowerCase (name p)) (caught [] (fetchLocalPlaces osm dist la lo lim))) \<and>
   categoryPlaces osm dist a b lim (query, label) =
     caught [] (placesOrThrow (dist a b) label (osm query a b lim)) \<and>
   map name (placesOf d label items) =
     map (\<lambda>item. hd (splitOn 44 (the (display_name item))))
       (filter (\<lambda>item. truthy (display_name item)) items)"
proof (intro conjI)
  show "fetchLocalPlaces osm dist la lo lim =
     Inr (case (la, lo) of
            (Some a, Some b) \<Rightarrow>
              firstBy (\<lambda>p. toLowerCase (name p)) []
                (concat (map (categoryPlaces osm dist a b lim) placeQueries))
          | _ \<Rightarrow> [])"
    by (rule fetchLocalPlaces_eq)
  show "distinct (map (\<lambda>p. toLowerCase (name p)) (caught [] (fetchLocalPlaces osm dist la lo lim)))"
    by (cases la; cases lo) (simp_all add: fetchLocalPlaces_eq caught_def firstBy_distinct)
  show "categoryPlaces osm dist a b lim (query, label) =
     caught [] (placesOrThrow (dist a b) label (osm query a b lim))"
    by (simp add: categoryPlaces_def caught_def)
  show "map name (placesOf d label items) =
     map (\<lambda>item. hd (splitOn 44 (the (display_name item))))
       (filter (\<lambda>item. truthy (display_name item)) items)"
    by (rule placesOf_names)
qed

section \<open>Failure isolation\<close>

lemma pushSnippets_nothing: "pushSnippets cap b [] = b"
  by simp

lemma mergeResponses_nothing:
  "\<forall>r \<in> set rs. r = [] \<Longrightarrow> mergeResponses cap [] rs = []"
  by (induction rs) (auto simp: Let_def)

lemma assignBuckets_nothing:
  "\<forall>e \<in> set es. snd e = [] \<Longrightarrow> assignBuckets es emptyStrategicBuckets = emptyStrategicBuckets"
proof (induction es)
  case Nil
  show ?case by simp
next
  case (Cons e es)
  obtain k v where e: "e = (k, v)" by (cases e)
  with Cons.prems have v: "v = []" by simp
  have "emptyStrategicBuckets\<lparr>bucketOf := (bucketOf emptyStrategicBuckets)(k := [])\<rparr> =
        emptyStrategicBuckets"
    by (simp add: emptyStrategicBuckets_def fun_eq_iff)
  with Cons e v show ?case by simp
qed

lemma context_without_snippets:
  assumes "\<forall>q. snippetFailure (ddg q)"
  shows "fetchStrategicContext ddg c s z = Inr emptyStrategicBuckets"
proof -
  have "snd (fillBucket ddg c' s z config) = []" for c' config
    using assms
    by (simp add: fillBucket_def Let_def snippetFailure_empty mergeResponses_nothing)
  then have "assignBuckets (map (fillBucket ddg (replacementCity c s) s z) STRATEGIC_QUERIES)
               emptyStrategicBuckets = emptyStrategicBuckets"
    by (intro assignBuckets_nothing) simp
  moreover have "emptyStrategicBuckets\<lparr>city_snapshot := snapshotOf (bucketOf emptyStrategicBuckets)\<rparr> =
        emptyStrategicBuckets"
    by (simp add: emptyStrategicBuckets_def snapshotOf_def firstOf_def)
  ultimately show ?thesis by (simp add: fetchStrategicContext_eq Let_def)
qed

lemma firstBy_nothing: "firstBy f seen (concat (map (\<lambda>x. []) xs)) = []"
  by (induction xs) auto

lemma places_without_results:
  assumes "\<forall>q a b l. placeFailure (osm q a b l)"
  shows "fetchLocalPlaces osm dist la lo lim = Inr []"
proof -
  have "categoryPlaces osm dist a b lim = (\<lambda>q. [])" for a b
    using assms by (simp add: fun_eq_iff placeFailure_empty)
  then show ?thesis
    by (cases la; cases lo) (simp_all add: fetchLocalPlaces_eq firstBy_nothing)
qed

lemma GET_miss:
  assumes "validateZip z" "freshEntry w cache now z = None"
    "withTimeout (geoDeadline w) (lookupZip (zippopotam w) z) = Inr (Some geo)"
  shows "GET w cache now z =
    (let strategicContext =
           caught emptyStrategicBuckets
             (withTimeout (contextDeadline w)
                (fetchStrategicContext (duckduckgo w) (city geo) (state geo) (zip_code geo)));
         enhancedPlaces =
           enrichLocalPlaces (duckduckgo w) (showNumber w)
             (caught []
                (withTimeout (placesDeadline w)
                   (fetchLocalPlaces (nominatim w) (distance w) (latitude geo) (longitude geo) 5)))
             (city geo) (state geo)
     in (case callGrok w
               \<lparr>location =
                  \<lparr>loc_zip = zip_code geo, loc_city = city geo, loc_state = state geo,
                   coordinates =
                     (case (latitude geo, longitude geo) of
                        (Some la, Some lo) \<Rightarrow> Some (la, lo)
                      | _ \<Rightarrow> None)\<rparr>,
                strategic_context = strategicContext,
                anchor_spots = take 6 enhancedPlaces\<rparr> of
           Inl e \<Rightarrow> (failureOf e, cache, allStages)
         | Inr synthesis \<Rightarrow>
             (Payload
                \<lparr>response_zip = zip_code geo, response_city = city geo,
                 response_state = state geo,
                 summary_card =
                   \<lparr>local_lifestyle_hook = [], equity_or_payment_hook = [], intent_probe = []\<rparr>,
                 knowledge_brief = knowledge synthesis,
                 grok_anchors = anchors synthesis,
                 raw_supporting_data =
                   \<lparr>supporting_context = strategicContext, local_places = enhancedPlaces\<rparr>\<rparr>,
              cache(z := Some
                \<lparr>timestamp = now,
                 payload =
                   \<lparr>response_zip = zip_code geo, response_city = city geo,
                    response_state = state geo,
                    summary_card =
                      \<lparr>local_lifestyle_hook = [], equity_or_payment_hook = [], intent_probe = []\<rparr>,
                    knowledge_brief = knowledge synthesis,
                    grok_anchors = anchors synthesis,
                    raw_supporting_data =
                      \<lparr>supporting_context = strategicContext, local_places = enhancedPlaces\<rparr>\<rparr>\<rparr>),
              allStages)))"
  using assms by (simp add: GET_def Let_def allStages_def split: sum.splits)

lemma GET_payload:
  assumes "GET w cache now z = (Payload p, cache', stages)"
  shows "validateZip z \<and>
    (stages = [] \<and> cache' = cache \<and> (\<exists>e. freshEntry w cache now z = Some e \<and> p = payload e) \<or>
     stages = allStages \<and> freshEntry w cache now z = None \<and>
       cache' = cache(z := Some \<lparr>timestamp = now, payload = p\<rparr>))"
  using assms
  by (auto simp: GET_def Let_def allStages_def failureOf_def
           split: if_splits option.splits sum.splits)

lemma GET_hit:
  assumes "validateZip z" "cache z = Some e" "now - timestamp e < CACHE_TTL_MS w"
  shows "GET w cache now z = (Payload (payload e), cache, [])"
  using assms by (simp add: GET_def freshEntry_def)

lemma freshEntry_Some:
  "freshEntry w cache now z = Some e \<longleftrightarrow> cache z = Some e \<and> now - timestamp e < CACHE_TTL_MS w"
  by (auto simp: freshEntry_def split: option.splits)

lemma quiet_lookup:
  "withTimeout (geoDeadline quietWorld) (lookupZip (zippopotam quietWorld) (js ''85001'')) =
     Inr (Some \<lparr>zip_code = js ''85001'', city = js ''Phoenix'', state = js ''AZ'',
                latitude = Some 33, longitude = Some 112\<rparr>)"
  by (simp add: quietWorld_def phoenix_def withTimeout_def lookupZip_def ok_def orElse_def)

lemma quiet_fails:
  "\<forall>q. snippetFailure (duckduckgo quietWorld q)"
  "\<forall>q a b l. placeFailure (nominatim quietWorld q a b l)"
  by (simp_all add: quietWorld_def snippetFailure_def placeFailure_def ok_def)

lemma quiet_synthesis:
  "callGrok quietWorld ctx =
     Inr \<lparr>knowledge = [(js ''state_identity'', [js ''Sunny.''])], anchors = []\<rparr>"
  by (simp add: callGrok_def quietWorld_def truthy_def ok_def string_ops parser_ops)

lemma quiet_zip: "validateZip (js ''85001'')"
  by (simp add: validateZip_def js_def)

lemma quiet_GET:
  "GET quietWorld (\<lambda>z. None) 1000 (js ''85001'') =
     (Payload thinPayload,
      (\<lambda>z. None)(js ''85001'' := Some \<lparr>timestamp = 1000, payload = thinPayload\<rparr>),
      allStages)"
proof -
  have f: "freshEntry quietWorld (\<lambda>z. None) 1000 (js ''85001'') = None"
    by (simp add: freshEntry_def)
  have sc: "caught emptyStrategicBuckets
        (withTimeout (contextDeadline quietWorld) (fetchStrategicContext (duckduckgo quietWorld) c s z)) =
      emptyStrategicBuckets" for c s z
    by (simp add: context_without_snippets[OF quiet_fails(1)] withTimeout_def caught_def)
  have pl: "caught []
        (withTimeout (placesDeadline quietWorld)
           (fetchLocalPlaces (nominatim quietWorld) (distance quietWorld) la lo 5)) = []" for la lo
    by (simp add: places_without_results[OF quiet_fails(2)] withTimeout_def caught_def)
  show ?thesis
    unfolding GET_miss[OF quiet_zip f quiet_lookup] sc pl
    by (simp add: quiet_synthesis enrichLocalPlaces_def thinPayload_def Let_def)
qed


text \<open>
  Claim C8. A query of the Snippet Source whose transport fails, whose status is no
  success, or whose body gives no response object yields the empty list. A category
  query of the Place Source that fails in one of these ways yields the empty list for
  its category, and the Place Source still merges the lists of all ten categories.
  Neither source ever ends in an error. When every search query and every places
  query fails, a request that found its ZIP goes on to the synthesis with empty
  buckets and no places, and answers with them when the synthesis succeeds.
\<close>

theorem failures_isolated:
  "(snippetFailure (ddg q) \<longrightarrow> queryDuckDuckGoSnippets ddg q lim = []) \<and>
   (placeFailure (osm query a b lim) \<longrightarrow> categoryPlaces osm dist a b lim (query, label) = []) \<and>
   fetchLocalPlaces osm dist (Some a) (Some b) lim =
     Inr (firstBy (\<lambda>p. toLowerCase (name p)) []
            (concat (map (categoryPlaces osm dist a b lim) placeQueries))) \<and>
   (\<exists>buckets. fetchStrategicContext ddg c s z = Inr buckets) \<and>
   (\<exists>places. fetchLocalPlaces osm dist la lo lim = Inr places) \<and>
   (validateZip z \<and> freshEntry w cache now z = None \<and>
    withTimeout (geoDeadline w) (lookupZip (zippopotam w) z) = Inr (Some geo) \<and>
    (\<forall>q. snippetFailure (duckduckgo w q)) \<and>
    (\<forall>q la lo l. placeFailure (nominatim w q la lo l)) \<longrightarrow>
    GET w cache now z =
      (case callGrok w
              \<lparr>location =
                 \<lparr>loc_zip = zip_code geo, loc_city = city geo, loc_state = state geo,
                  coordinates =
                    (case (latitude geo, longitude geo) of
                       (Some la, Some lo) \<Rightarrow> Some (la, lo)
                     | _ \<Rightarrow> None)\<rparr>,
               strategic_context = emptyStrategicBuckets,
               anchor_spots = []\<rparr> of
         Inl e \<Rightarrow> (failureOf e, cache, allStages)
       | Inr synthesis \<Rightarrow>
           (Payload
              \<lparr>response_zip = zip_code geo, response_city = city geo,
               response_state = state geo,
               summary_card =
                 \<lparr>local_lifestyle_hook = [], equity_or_payment_hook = [], intent_probe = []\<rparr>,
               knowledge_brief = knowledge synthesis,
               grok_anchors = anchors synthesis,
               raw_supporting_data =
                 \<lparr>supporting_context = emptyStrategicBuckets, local_places = []\<rparr>\<rparr>,
            cache(z := Some
              \<lparr>timestamp = now,
               payload =
                 \<lparr>response_zip = zip_code geo, response_city = city geo,
                  response_state = state geo,
                  summary_card =
                    \<lparr>local_lifestyle_hook = [], equity_or_payment_hook = [], intent_probe = []\<rparr>,
                  knowledge_brief = knowledge synthesis,
                  grok_anchors = anchors synthesis,
                  raw_supporting_data =
                    \<lparr>supporting_context = emptyStrategicBuckets, local_places = []\<rparr>\<rparr>\<rparr>),
            allStages)))"
proof (intro conjI impI)
  assume "snippetFailure (ddg q)"
  then show "queryDuckDuckGoSnippets ddg q lim = []" by (rule snippetFailure_empty)
next
  assume "placeFailure (osm query a b lim)"
  then show "categoryPlaces osm dist a b lim (query, label) = []"
    by (intro placeFailure_empty) simp
next
  show "fetchLocalPlaces osm dist (Some a) (Some b) lim =
     Inr (firstBy (\<lambda>p. toLowerCase (name p)) []
            (concat (map (categoryPlaces osm dist a b lim) placeQueries)))"
    by (simp add: fetchLocalPlaces_eq)
  show "\<exists>buckets. fetchStrategicContext ddg c s z = Inr buckets"
    by (simp add: fetchStrategicContext_eq)
  show "\<exists>places. fetchLocalPlaces osm dist la lo lim = Inr places"
    by (simp add: fetchLocalPlaces_eq)
next
  assume a: "validateZip z \<and> freshEntry w cache now z = None \<and>
    withTimeout (geoDeadline w) (lookupZip (zippopotam w) z) = Inr (Some geo) \<and>
    (\<forall>q. snippetFailure (duckduckgo w q)) \<and>
    (\<forall>q la lo l. placeFailure (nominatim w q la lo l))"
  then have 1: "fetchStrategicContext (duckduckgo w) (city geo) (state geo) (zip_code geo) =
      Inr emptyStrategicBuckets"
    by (intro context_without_snippets) simp
  from a have 2: "fetchLocalPlaces (nominatim w) (distance w) (latitude geo) (longitude geo) 5 = Inr []"
    by (intro places_without_results) simp
  have sc: "caught emptyStrategicBuckets
        (withTimeout (contextDeadline w)
           (fetchStrategicContext (duckduckgo w) (city geo) (state geo) (zip_code geo))) =
      emptyStrategicBuckets"
    by (simp add: 1 withTimeout_def caught_def)
  have pl: "caught []
        (withTimeout (placesDeadline w)
           (fetchLocalPlaces (nominatim w) (distance w) (latitude geo) (longitude geo) 5)) = []"
    by (simp add: 2 withTimeout_def caught_def)
  from a have m: "validateZip z" "freshEntry w cache now z = None"
    "withTimeout (geoDeadline w) (lookupZip (zippopotam w) z) = Inr (Some geo)" by simp_all
  show "GET w cache now z =
      (case callGrok w
              \<lparr>location =
                 \<lparr>loc_zip = zip_code geo, loc_city = city geo, loc_state = state geo,
                  coordinates =
                    (case (latitude geo, longitude geo) of
                       (Some la, Some lo) \<Rightarrow> Some (la, lo)
                     | _ \<Rightarrow> None)\<rparr>,
               strategic_context = emptyStrategicBuckets,
               anchor_spots = []\<rparr> of
         Inl e \<Rightarrow> (failureOf e, cache, allStages)
       | Inr synthesis \<Rightarrow>
           (Payload
              \<lparr>response_zip = zip_code geo, response_city = city geo,
               response_state = state geo,
               summary_card =
                 \<lparr>local_lifestyle_hook = [], equity_or_payment_hook = [], intent_probe = []\<rparr>,
               knowledge_brief = knowledge synthesis,
               grok_anchors = anchors synthesis,
               raw_supporting_data =
                 \<lparr>supporting_context = emptyStrategicBuckets, local_places = []\<rparr>\<rparr>,
            cache(z := Some
              \<lparr>timestamp = now,
               payload =
                 \<lparr>response_zip = zip_code geo, response_city = city geo,
                  response_state = state geo,
                  summary_card =
                    \<lparr>local_lifestyle_hook = [], equity_or_payment_hook = [], intent_probe = []\<rparr>,
                  knowledge_brief = knowledge synthesis,
                  grok_anchors = anchors synthesis,
                  raw_supporting_data =
                    \<lparr>supporting_context = emptyStrategicBuckets, local_places = []\<rparr>\<rparr>\<rparr>),
            allStages))"
    unfolding GET_miss[OF m] sc pl
    by (simp add: enrichLocalPlaces_def Let_def)
qed

text \<open>
  The statement of C8 in the world where every search and places query fails.
\<close>

theorem failures_isolated_witness:
  "snippetFailure (duckduckgo quietWorld (js ''parks'')) \<and>
   queryDuckDuckGoSnippets (duckduckgo quietWorld) (js ''parks'') 5 = [] \<and>
   placeFailure (nominatim quietWorld (js ''park'') 33 112 5) \<and>
   categoryPlaces (nominatim quietWorld) (distance quietWorld) 33 112 5 (js ''park'', js ''Park'') = [] \<and>
   GET quietWorld (\<lambda>z. None) 1000 (js ''85001'') =
     (Payload thinPayload,
      (\<lambda>z. None)(js ''85001'' := Some \<lparr>timestamp = 1000, payload = thinPayload\<rparr>),
      allStages)"
proof -
  have f: "freshEntry quietWorld (\<lambda>z. None) 1000 (js ''85001'') = None"
    by (simp add: freshEntry_def)
  note t = failures_isolated
    [where ddg = "duckduckgo quietWorld" and q = "js ''parks''" and lim = 5
       and osm = "nominatim quietWorld" and query = "js ''park''" and a = 33 and b = 112
       and dist = "distance quietWorld" and label = "js ''Park''"
       and c = "[]" and s = "[]" and z = "js ''85001''" and la = None and lo = None
       and w = quietWorld and cache = "\<lambda>z. None" and now = 1000
       and geo = "\<lparr>zip_code = js ''85001'', city = js ''Phoenix'', state = js ''AZ'',
                     latitude = Some 33, longitude = Some 112\<rparr>"]
  from t quiet_fails quiet_zip f quiet_lookup show ?thesis
    by (simp add: quiet_synthesis thinPayload_def)
qed

section \<open>Properties of the Geo Resolver and the Response Cache\<close>

lemma cutAt_found: "P s \<Longrightarrow> cutAt P n (a @ s) \<noteq> None"
  by (induction a) (cases s; auto)+

lemma includesStr_mid: "includesStr s (a @ s @ b)"
  unfolding includesStr_def by (rule cutAt_found) (simp add: startsWith_def)

lemma lookupZip_not_found:
  "lookupZip zippo z = Inr None \<longleftrightarrow>
     (\<exists>status body. zippo z = Response status body \<and>
        (status = 404 \<or>
         ok status \<and> (\<exists>post_code. body = ZipJson post_code None \<or> body = ZipJson post_code (Some []))))"
  by (auto simp: lookupZip_def ok_def split: fetched.splits zip_body.splits option.splits list.splits)

lemma GET_404:
  assumes "validateZip z" "freshEntry w cache now z = None"
  shows "(\<exists>d. fst (GET w cache now z) = Detail 404 d) \<longleftrightarrow>
           \<not> geoDeadline w \<and> lookupZip (zippopotam w) z = Inr None"
    and "\<not> geoDeadline w \<and> lookupZip (zippopotam w) z = Inr None \<Longrightarrow>
           GET w cache now z = (Detail 404 (js ''ZIP '' @ z @ js '' not found.''), cache, [GeoResolve])"
  using assms
  by (auto simp: GET_def Let_def withTimeout_def failureOf_def split: sum.splits option.splits)

text \<open>
  Claim C5, as the code has it. The Geo Resolver gives the not-found outcome exactly
  when the endpoint answers with status 404, or answers with a success status and a
  JSON payload whose \<open>places\<close> is missing, is no array or is empty. A rejected request,
  any other status that is no success, and a body that is not JSON are failures. A
  request with a valid ZIP that is not answered from the cache responds 404 exactly
  when the lookup gives the not-found outcome before its deadline, and the detail of
  that response contains the ZIP.
\<close>

theorem geo_not_found:
  "(lookupZip zippo z = Inr None \<longleftrightarrow>
     (\<exists>status body. zippo z = Response status body \<and>
        (status = 404 \<or>
         ok status \<and> (\<exists>post_code. body = ZipJson post_code None \<or> body = ZipJson post_code (Some []))))) \<and>
   (zippo z = Rejected m \<longrightarrow> lookupZip zippo z = Inl (Platform m)) \<and>
   (zippo z = Response status body \<and> status \<noteq> 404 \<and> \<not> ok status \<longrightarrow>
      lookupZip zippo z = Inl (GeoStatus status)) \<and>
   (zippo z = Response status (ZipNotJson m) \<and> ok status \<longrightarrow>
      lookupZip zippo z = Inl (Platform m)) \<and>
   (validateZip z \<and> freshEntry w cache now z = None \<longrightarrow>
      ((\<exists>d. fst (GET w cache now z) = Detail 404 d) \<longleftrightarrow>
         \<not> geoDeadline w \<and> lookupZip (zippopotam w) z = Inr None) \<and>
      (\<not> geoDeadline w \<and> lookupZip (zippopotam w) z = Inr None \<longrightarrow>
         GET w cache now z =
           (Detail 404 (js ''ZIP '' @ z @ js '' not found.''), cache, [GeoResolve]))) \<and>
   includesStr z (js ''ZIP '' @ z @ js '' not found.'')"
proof (intro conjI impI)
  show "lookupZip zippo z = Inr None \<longleftrightarrow>
     (\<exists>status body. zippo z = Response status body \<and>
        (status = 404 \<or>
         ok status \<and> (\<exists>post_code. body = ZipJson post_code None \<or> body = ZipJson post_code (Some []))))"
    by (rule lookupZip_not_found)
  show "includesStr z (js ''ZIP '' @ z @ js '' not found.'')" by (rule includesStr_mid)
next
  assume "zippo z = Rejected m"
  then show "lookupZip zippo z = Inl (Platform m)" by (simp add: lookupZip_def)
next
  assume "zippo z = Response status body \<and> status \<noteq> 404 \<and> \<not> ok status"
  then show "lookupZip zippo z = Inl (GeoStatus status)" by (simp add: lookupZip_def)
next
  assume "zippo z = Response status (ZipNotJson m) \<and> ok status"
  then show "lookupZip zippo z = Inl (Platform m)" by (auto simp: lookupZip_def ok_def)
next
  assume a: "validateZip z \<and> freshEntry w cache now z = None"
  then show "(\<exists>d. fst (GET w cache now z) = Detail 404 d) \<longleftrightarrow>
         \<not> geoDeadline w \<and> lookupZip (zippopotam w) z = Inr None"
    using GET_404(1)[of z w cache now] by simp
  assume "\<not> geoDeadline w \<and> lookupZip (zippopotam w) z = Inr None"
  with a show "GET w cache now z =
           (Detail 404 (js ''ZIP '' @ z @ js '' not found.''), cache, [GeoResolve])"
    using GET_404(2)[of z w cache now] by simp
qed

text \<open>
  Claim C5 as it is worded fails on an endpoint that answers a ZIP with status 200 and
  an empty list of places: the outcome is not-found and the response is 404, though
  the endpoint did not answer 404.
\<close>

theorem geo_not_found_counterexample:
  "lookupZip (\<lambda>z. nowhere) (js ''00000'') = Inr None \<and>
   GET (quietWorld\<lparr>zippopotam := \<lambda>z. nowhere\<rparr>) (\<lambda>z. None) 1000 (js ''00000'') =
     (Detail 404 (js ''ZIP 00000 not found.''), \<lambda>z. None, [GeoResolve])"
  by (simp add: lookupZip_def nowhere_def ok_def GET_def validateZip_def freshEntry_def
        withTimeout_def quietWorld_def js_def)

text \<open>
  The statement of C5 at endpoints that answer 404, reject, answer 500, and answer 200
  with a body that is not JSON.
\<close>

theorem geo_not_found_witness:
  "lookupZip (\<lambda>z. Response 404 (ZipNotJson []) :: nat zip_body fetched) (js ''00000'') = Inr None \<and>
   lookupZip (\<lambda>z. Rejected (js ''aborted'') :: nat zip_body fetched) (js ''00000'') =
     Inl (Platform (js ''aborted'')) \<and>
   lookupZip (\<lambda>z. Response 500 (ZipNotJson []) :: nat zip_body fetched) (js ''00000'') =
     Inl (GeoStatus 500) \<and>
   lookupZip (\<lambda>z. Response 200 (ZipNotJson (js ''Unexpected token'')) :: nat zip_body fetched)
     (js ''00000'') = Inl (Platform (js ''Unexpected token'')) \<and>
   validateZip (js ''00000'') \<and>
   GET (quietWorld\<lparr>zippopotam := \<lambda>z. Response 404 (ZipNotJson [])\<rparr>) (\<lambda>z. None) 1000 (js ''00000'') =
     (Detail 404 (js ''ZIP 00000 not found.''), \<lambda>z. None, [GeoResolve])"
proof -
  let ?w = "quietWorld\<lparr>zippopotam := \<lambda>z. Response 404 (ZipNotJson [])\<rparr>"
  have f: "freshEntry ?w (\<lambda>z. None) 1000 (js ''00000'') = None" by (simp add: freshEntry_def)
  have v: "validateZip (js ''00000'')" by (simp add: validateZip_def js_def)
  have g: "\<not> geoDeadline ?w" by (simp add: quietWorld_def)
  note t1 = geo_not_found[where zippo = "\<lambda>z. Response 404 (ZipNotJson []) :: nat zip_body fetched"
      and z = "js ''00000''" and m = "[]" and status = 404 and body = "ZipNotJson []"
      and w = ?w and cache = "\<lambda>z. None" and now = 1000]
  note t2 = geo_not_found[where zippo = "\<lambda>z. Rejected (js ''aborted'') :: nat zip_body fetched"
      and z = "js ''00000''" and m = "js ''aborted''" and status = 404 and body = "ZipNotJson []"
      and w = ?w and cache = "\<lambda>z. None" and now = 1000]
  note t3 = geo_not_found[where zippo = "\<lambda>z. Response 500 (ZipNotJson []) :: nat zip_body fetched"
      and z = "js ''00000''" and m = "[]" and status = 500 and body = "ZipNotJson []"
      and w = ?w and cache = "\<lambda>z. None" and now = 1000]
  note t4 = geo_not_found[where
      zippo = "\<lambda>z. Response 200 (ZipNotJson (js ''Unexpected token'')) :: nat zip_body fetched"
      and z = "js ''00000''" and m = "js ''Unexpected token''" and status = 200
      and body = "ZipNotJson (js ''Unexpected token'')"
      and w = ?w and cache = "\<lambda>z. None" and now = 1000]
  have l: "lookupZip (zippopotam ?w) (js ''00000'') = Inr None"
    using t1 by (simp add: quietWorld_def)
  have 1: "lookupZip (\<lambda>z. Response 404 (ZipNotJson []) :: nat zip_body fetched) (js ''00000'') = Inr None"
    using t1 by simp
  have 2: "lookupZip (\<lambda>z. Rejected (js ''aborted'') :: nat zip_body fetched) (js ''00000'') =
     Inl (Platform (js ''aborted''))" using t2 by simp
  have 3: "lookupZip (\<lambda>z. Response 500 (ZipNotJson []) :: nat zip_body fetched) (js ''00000'') =
     Inl (GeoStatus 500)" using t3 by (simp add: ok_def)
  have 4: "lookupZip (\<lambda>z. Response 200 (ZipNotJson (js ''Unexpected token'')) :: nat zip_body fetched)
     (js ''00000'') = Inl (Platform (js ''Unexpected token''))" using t4 by (simp add: ok_def)
  have 5: "GET ?w (\<lambda>z. None) 1000 (js ''00000'') =
     (Detail 404 (js ''ZIP '' @ js ''00000'' @ js '' not found.''), \<lambda>z. None, [GeoResolve])"
    using t1 f v g l by simp
  have 6: "js ''ZIP '' @ js ''00000'' @ js '' not found.'' = js ''ZIP 00000 not found.''"
    by (simp add: js_def)
  from 1 2 3 4 5 v show ?thesis unfolding 6 by simp
qed

text \<open>
  Claim C4. The cache gives an entry exactly when one is stored for the ZIP and the
  time since its timestamp is below the TTL, and none otherwise. A request that ran the
  pipeline and answered with a payload stores it under its ZIP, whatever was stored
  before. A request for a valid ZIP with such an entry answers with the stored payload,
  leaves the cache as it is and starts no stage, so it makes no upstream call. Hence
  after a request that ran the pipeline, a request for the same ZIP within the TTL
  gets the same payload without any upstream call, whatever the upstream services
  would answer then.
\<close>

theorem cache_hit:
  "(freshEntry w cache now z = Some e \<longleftrightarrow>
      cache z = Some e \<and> now - timestamp e < CACHE_TTL_MS w) \<and>
   (freshEntry w cache now z = None \<longleftrightarrow>
      (\<forall>e. cache z = Some e \<longrightarrow> CACHE_TTL_MS w \<le> now - timestamp e)) \<and>
   (GET w cache now z = (Payload p, cache', stages) \<and> stages \<noteq> [] \<longrightarrow>
      cache' = cache(z := Some \<lparr>timestamp = now, payload = p\<rparr>)) \<and>
   (validateZip z \<and> cache z = Some e \<and> now - timestamp e < CACHE_TTL_MS w \<longrightarrow>
      GET w cache now z = (Payload (payload e), cache, [])) \<and>
   (GET w cache now z = (Payload p, cache', stages) \<and> stages \<noteq> [] \<and>
    now' - now < CACHE_TTL_MS w' \<longrightarrow>
      GET w' cache' now' z = (Payload p, cache', []))"
proof (intro conjI impI)
  show "freshEntry w cache now z = Some e \<longleftrightarrow>
      cache z = Some e \<and> now - timestamp e < CACHE_TTL_MS w"
    by (rule freshEntry_Some)
  show "freshEntry w cache now z = None \<longleftrightarrow>
      (\<forall>e. cache z = Some e \<longrightarrow> CACHE_TTL_MS w \<le> now - timestamp e)"
    by (auto simp: freshEntry_def split: option.splits if_splits)
next
  assume "GET w cache now z = (Payload p, cache', stages) \<and> stages \<noteq> []"
  with GET_payload[of w cache now z p cache' stages]
  show "cache' = cache(z := Some \<lparr>timestamp = now, payload = p\<rparr>)" by auto
next
  assume "validateZip z \<and> cache z = Some e \<and> now - timestamp e < CACHE_TTL_MS w"
  then show "GET w cache now z = (Payload (payload e), cache, [])"
    using GET_hit[of z cache e now w] by simp
next
  assume a: "GET w cache now z = (Payload p, cache', stages) \<and> stages \<noteq> [] \<and>
    now' - now < CACHE_TTL_MS w'"
  with GET_payload[of w cache now z p cache' stages]
  have "validateZip z" "cache' z = Some \<lparr>timestamp = now, payload = p\<rparr>" by auto
  with a show "GET w' cache' now' z = (Payload p, cache', [])"
    using GET_hit[of z cache' "\<lparr>timestamp = now, payload = p\<rparr>" now' w'] by simp
qed

text \<open>
  The statement of C4 for two requests for 85001, the second four seconds after the
  first and in a world whose search endpoint answers differently.
\<close>

theorem cache_hit_witness:
  "GET quietWorld (\<lambda>z. None) 1000 (js ''85001'') =
     (Payload thinPayload,
      (\<lambda>z. None)(js ''85001'' := Some \<lparr>timestamp = 1000, payload = thinPayload\<rparr>),
      allStages) \<and>
   allStages \<noteq> [] \<and> 5000 - 1000 < CACHE_TTL_MS (quietWorld\<lparr>duckduckgo := \<lambda>q. Response 200 BodyEmpty\<rparr>) \<and>
   GET (quietWorld\<lparr>duckduckgo := \<lambda>q. Response 200 BodyEmpty\<rparr>)
     ((\<lambda>z. None)(js ''85001'' := Some \<lparr>timestamp = 1000, payload = thinPayload\<rparr>))
     5000 (js ''85001'') =
     (Payload thinPayload,
      (\<lambda>z. None)(js ''85001'' := Some \<lparr>timestamp = 1000, payload = thinPayload\<rparr>),
      [])"
proof -
  let ?w' = "quietWorld\<lparr>duckduckgo := \<lambda>q. Response 200 BodyEmpty\<rparr>"
  let ?c = "(\<lambda>z. None)(js ''85001'' := Some \<lparr>timestamp = 1000, payload = thinPayload\<rparr>)"
  have s: "allStages \<noteq> []" by (simp add: allStages_def)
  have ttl: "5000 - 1000 < CACHE_TTL_MS ?w'" by (simp add: CACHE_TTL_MS_def quietWorld_def)
  note t = cache_hit[where w = quietWorld and cache = "\<lambda>z. None" and now = 1000
      and z = "js ''85001''" and p = thinPayload and cache' = ?c and stages = allStages
      and now' = 5000 and w' = ?w' and e = "\<lparr>timestamp = 1000, payload = thinPayload\<rparr>"]
  from t quiet_GET s ttl show ?thesis by simp
qed

text \<open>
  Claim C10. \<open>GET\<close> reads the clock once, before the lookup and the fetches, and this
  value \<open>now\<close> is the timestamp of the entry it stores. The entry is treated as absent
  from \<open>now + TTL\<close> on. So when the pipeline took \<open>d\<close> milliseconds and the entry was
  written at \<open>now + d\<close>, it is absent at every time from \<open>now + TTL\<close> up to
  \<open>now + d + TTL\<close>, which is less than the TTL after it was written.
\<close>

theorem cache_timestamp:
  "GET w cache now z = (Payload p, cache', stages) \<and> stages \<noteq> [] \<longrightarrow>
     cache' z = Some \<lparr>timestamp = now, payload = p\<rparr> \<and>
     (\<forall>t. (freshEntry w cache' t z = None) = (CACHE_TTL_MS w \<le> t - now)) \<and>
     (\<forall>d t. 0 < d \<and> now + CACHE_TTL_MS w \<le> t \<and> t < now + d + CACHE_TTL_MS w \<longrightarrow>
        freshEntry w cache' t z = None)"
proof
  assume "GET w cache now z = (Payload p, cache', stages) \<and> stages \<noteq> []"
  with GET_payload[of w cache now z p cache' stages]
  have c: "cache' z = Some \<lparr>timestamp = now, payload = p\<rparr>" by auto
  then have f: "(freshEntry w cache' t z = None) = (CACHE_TTL_MS w \<le> t - now)" for t
    by (simp add: freshEntry_def)
  from c f show "cache' z = Some \<lparr>timestamp = now, payload = p\<rparr> \<and>
     (\<forall>t. (freshEntry w cache' t z = None) = (CACHE_TTL_MS w \<le> t - now)) \<and>
     (\<forall>d t. 0 < d \<and> now + CACHE_TTL_MS w \<le> t \<and> t < now + d + CACHE_TTL_MS w \<longrightarrow>
        freshEntry w cache' t z = None)"
    by auto
qed

text \<open>
  The statement of C10 for a request at time 1000 with the default TTL of six hours:
  the entry is given at 21600999 and absent at 21601000.
\<close>

theorem cache_timestamp_witness:
  "GET quietWorld (\<lambda>z. None) 1000 (js ''85001'') =
     (Payload thinPayload,
      (\<lambda>z. None)(js ''85001'' := Some \<lparr>timestamp = 1000, payload = thinPayload\<rparr>),
      allStages) \<and>
   CACHE_TTL_MS quietWorld = 21600000 \<and>
   freshEntry quietWorld
     ((\<lambda>z. None)(js ''85001'' := Some \<lparr>timestamp = 1000, payload = thinPayload\<rparr>))
     21600999 (js ''85001'') =
     Some \<lparr>timestamp = 1000, payload = thinPayload\<rparr> \<and>
   freshEntry quietWorld
     ((\<lambda>z. None)(js ''85001'' := Some \<lparr>timestamp = 1000, payload = thinPayload\<rparr>))
     21601000 (js ''85001'') = None"
proof -
  let ?c = "(\<lambda>z. None)(js ''85001'' := Some \<lparr>timestamp = 1000, payload = thinPayload\<rparr>)"
  have s: "allStages \<noteq> []" by (simp add: allStages_def)
  have ttl: "CACHE_TTL_MS quietWorld = 21600000" by (simp add: CACHE_TTL_MS_def quietWorld_def)
  note t = cache_timestamp[where w = quietWorld and cache = "\<lambda>z. None" and now = 1000
      and z = "js ''85001''" and p = thinPayload and cache' = ?c and stages = allStages,
      rule_format, OF conjI[OF quiet_GET s]]
  from t[THEN conjunct2, THEN conjunct1, rule_format, of 21601000]
  have 1: "freshEntry quietWorld ?c 21601000 (js ''85001'') = None" by (simp add: ttl)
  have 2: "freshEntry quietWorld ?c 21600999 (js ''85001'') =
     Some \<lparr>timestamp = 1000, payload = thinPayload\<rparr>"
    by (simp add: freshEntry_def ttl)
  from quiet_GET ttl 1 2 show ?thesis by simp
qed

section \<open>Further examples\<close>

text \<open>
  The statement of C9 at the endpoint \<open>twoParks\<close>: the record without display name
  and the second spelling of the park are left out, the order is kept.
\<close>

theorem place_merge_witness:
  "fetchLocalPlaces twoParks (\<lambda>lat1 lon1 lat2 lon2. 0) (Some 33) (Some 112) 5 =
     Inr [\<lparr>name = js ''Central Park'', category = Some (js ''Park''), distance_miles = None,
           url = None, summary = None\<rparr>,
          \<lparr>name = js ''River Trail'', category = Some (js ''Trail''), distance_miles = None,
           url = None, summary = None\<rparr>]"
  using place_merge[where osm = twoParks and dist = "\<lambda>lat1 lon1 lat2 lon2. 0" and la = "Some 33"
      and lo = "Some 112" and lim = 5 and a = 33 and b = 112 and query = "js ''park''"
      and label = "js ''Park''" and d = "\<lambda>lat2 lon2. 0" and items = "[]"]
  by (simp add: placeQueries_def categoryPlaces_def placesOrThrow_def ok_def twoParks_def
        truthy_def string_ops)

lemma normalizeBlurb_letters: "0 < n \<Longrightarrow> normalizeBlurb (replicate n 97) = replicate n 97"
proof -
  assume "0 < n"
  moreover have "\<not> isSpace 97" by (simp add: isSpace_def)
  ultimately show ?thesis
    by (intro normalizeBlurb_fixed tidy_no_space) simp_all
qed

lemma three_fields:
  "queryDuckDuckGoSnippets threeFields (js ''phoenix'') 2 = [js ''Phoenix.'', js ''A desert city!'']"
  by (simp add: threeFields_def snippet_ops string_ops)

text \<open>
  The statement on the Snippet Source at the response \<open>threeFields\<close> with limit 2, at
  a candidate of 221 letters and at a short candidate.
\<close>

theorem snippet_sentences_witness:
  "queryDuckDuckGoSnippets threeFields (js ''phoenix'') 2 = [js ''Phoenix.'', js ''A desert city!''] \<and>
   length (queryDuckDuckGoSnippets threeFields (js ''phoenix'') 2) \<le> 2 \<and>
   distinct (map toLowerCase (queryDuckDuckGoSnippets threeFields (js ''phoenix'') 2)) \<and>
   normalizeBlurb (js ''A desert city!'') = js ''A desert city!'' \<and>
   terminal (last (js ''A desert city!'')) \<and>
   220 < length (normalizeBlurb (replicate 221 97)) \<and>
   length (ensureSentence (replicate 221 97)) \<le> 219 \<and>
   length (normalizeBlurb (js ''ok'')) < 220 \<and>
   length (ensureSentence (js ''ok'')) \<le> 220"
proof -
  note t1 = snippet_sentences[where ddg = threeFields and q = "js ''phoenix''" and lim = 2
      and status = 200 and t = "replicate 221 97"
      and data = "\<lparr>Heading = Some (js ''Phoenix''), AbstractText = Some (js ''  phoenix  ''),
                  Abstract = Some (js ''A  desert'' @ [9] @ js ''city!''), Answer = None,
                  Infobox = None, RelatedTopics = None\<rparr>"]
  note t2 = snippet_sentences[where ddg = threeFields and q = "js ''phoenix''" and lim = 2
      and status = 200 and t = "js ''ok''"
      and data = "\<lparr>Heading = Some (js ''Phoenix''), AbstractText = Some (js ''  phoenix  ''),
                  Abstract = Some (js ''A  desert'' @ [9] @ js ''city!''), Answer = None,
                  Infobox = None, RelatedTopics = None\<rparr>"]
  have long: "220 < length (normalizeBlurb (replicate 221 97))"
    by (simp add: normalizeBlurb_letters)
  have short: "length (normalizeBlurb (js ''ok'')) < 220"
    by (simp add: normalizeBlurb_def string_ops)
  have m: "js ''A desert city!'' \<in> set (queryDuckDuckGoSnippets threeFields (js ''phoenix'') 2)"
    by (simp add: three_fields)
  from t1 have 1: "length (queryDuckDuckGoSnippets threeFields (js ''phoenix'') 2) \<le> 2"
    and 2: "distinct (map toLowerCase (queryDuckDuckGoSnippets threeFields (js ''phoenix'') 2))"
    and 3: "\<forall>s \<in> set (queryDuckDuckGoSnippets threeFields (js ''phoenix'') 2).
              s \<noteq> [] \<and> normalizeBlurb s = s \<and> terminal (last s) \<and> length s \<le> 221"
    by simp_all
  from t1 long have 4: "length (ensureSentence (replicate 221 97)) \<le> 219" by blast
  from t2 short have 5: "length (ensureSentence (js ''ok'')) \<le> 220" by blast
  from 3 m have 6: "normalizeBlurb (js ''A desert city!'') = js ''A desert city!''"
    "terminal (last (js ''A desert city!''))" by blast+
  from three_fields 1 2 4 5 6 long short show ?thesis by blast
qed

end
